theory Spec2Isabelle
  imports Complex_Main "HOL-Library.AList"
begin

section \<open>JavaScript values\<close>

text \<open>
  The todo engine (utils/todoUtils.js, utils/dateUtils.js) works on plain JavaScript
  objects that come from \<open>createTodo\<close> or from \<open>JSON.parse\<close>. A value is
  \<open>undefined\<close>, \<open>null\<close>, a boolean, an integer number, a string or a plain object; an
  object is the list of its own properties in enumeration order. Strings are lists of
  code units below 256. Numbers are integers (no \<open>NaN\<close>, no fractions), of a magnitude
  that \<open>String\<close> prints in plain decimal. Properties inherited from
  \<open>Object.prototype\<close> are not part of the model.
\<close>

datatype jsval =
    JUndefined
  | JNull
  | JBool bool
  | JNum int
  | JStr string
  | JObj "(string \<times> jsval) list"

type_synonym obj = "(string \<times> jsval) list"

text \<open>A \<open>Date\<close> object, read through \<open>getFullYear\<close>, \<open>getMonth\<close> (0 to 11) and
  \<open>getDate\<close>; \<open>InvalidDate\<close> is the date whose getters all return \<open>NaN\<close>.\<close>

datatype jsdate = DateOf int nat nat | InvalidDate

text \<open>An argument that is either a \<open>Date\<close> object or one of the values above.\<close>

datatype arg = Val jsval | DateObj jsdate

text \<open>Every \<open>throw\<close> of the source is one constructor; the comment gives the message.\<close>

datatype error =
    TitleRequired              \<comment> \<open>createTodo: Todo title is required and must be a non-empty string\<close>
  | InvalidExisting            \<comment> \<open>updateTodo: Existing todo must be a valid object\<close>
  | MissingId                  \<comment> \<open>updateTodo: Existing todo must have an id\<close>
  | InvalidTitle               \<comment> \<open>updateTodo: Todo title must be a non-empty string\<close>
  | InvalidDateArg             \<comment> \<open>updateTodo: Date must be a valid Date object\<close>
  | NotAnObject                \<comment> \<open>validateTodo: Todo must be an object\<close>
  | MissingFields "string list" \<comment> \<open>validateTodo: Todo is missing required fields: f1, f2, ...\<close>
  | InvalidField string        \<comment> \<open>validateTodo: Todo id must be a non-empty string, and its siblings\<close>
  | AlreadyExists jsval string \<comment> \<open>addTodoToCollection: Todo with id I already exists for date D\<close>
  | NotFound string            \<comment> \<open>Todo with id I not found\<close>
  | TypeError                  \<comment> \<open>the runtime's TypeError (method call on a value without it)\<close>
  | StorageError string string \<comment> \<open>errorUtils: StorageError(message, operation)\<close>
  | Failed string error        \<comment> \<open>useTodos: new Error(`Failed to OP: ${error.message}`)\<close>

definition falsy :: "jsval \<Rightarrow> bool" where
  "falsy v = (v = JUndefined \<or> v = JNull \<or> v = JBool False \<or> v = JNum 0 \<or> v = JStr [])"

definition Boolean :: "jsval \<Rightarrow> bool" where
  "Boolean v = (\<not> falsy v)"

definition get_prop :: "obj \<Rightarrow> string \<Rightarrow> jsval" where
  "get_prop ob k = (case map_of ob k of None \<Rightarrow> JUndefined | Some v \<Rightarrow> v)"

definition has_prop :: "string \<Rightarrow> obj \<Rightarrow> bool" where
  "has_prop k ob = (map_of ob k \<noteq> None)"

definition set_prop :: "obj \<Rightarrow> string \<Rightarrow> jsval \<Rightarrow> obj" where
  "set_prop ob k v = AList.update k v ob"

section \<open>Strings\<close>

definition is_space :: "char \<Rightarrow> bool" where
  "is_space c = ((of_char c :: nat) \<in> {9, 10, 11, 12, 13, 32, 160})"

definition trim :: "string \<Rightarrow> string" where
  "trim s = rev (dropWhile is_space (rev (dropWhile is_space s)))"

definition lower_char :: "char \<Rightarrow> char" where
  "lower_char c =
     (let n = (of_char c :: nat)
      in if (65 \<le> n \<and> n \<le> 90) \<or> (192 \<le> n \<and> n \<le> 222 \<and> n \<noteq> 215)
         then char_of (n + 32) else c)"

definition toLowerCase :: "string \<Rightarrow> string" where
  "toLowerCase s = map lower_char s"

definition starts_with :: "string \<Rightarrow> string \<Rightarrow> bool" where
  "starts_with s t = (take (length t) s = t)"

fun str_includes :: "string \<Rightarrow> string \<Rightarrow> bool" where
  "str_includes [] t = (t = [])"
| "str_includes (c # cs) t = (starts_with (c # cs) t \<or> str_includes cs t)"

definition is_digit :: "char \<Rightarrow> bool" where
  "is_digit c = (48 \<le> (of_char c :: nat) \<and> (of_char c :: nat) \<le> 57)"

text \<open>The regular expression \<open>/^\d{4}-\d{2}-\d{2}$/\<close>.\<close>

fun date_key_format :: "string \<Rightarrow> bool" where
  "date_key_format [y1, y2, y3, y4, d1, m1, m2, d2, n1, n2] =
     (is_digit y1 \<and> is_digit y2 \<and> is_digit y3 \<and> is_digit y4 \<and> d1 = CHR ''-'' \<and>
      is_digit m1 \<and> is_digit m2 \<and> d2 = CHR ''-'' \<and> is_digit n1 \<and> is_digit n2)"
| "date_key_format _ = False"

definition digit_char :: "nat \<Rightarrow> char" where
  "digit_char n = char_of (48 + n)"

fun string_of_nat :: "nat \<Rightarrow> string" where
  "string_of_nat n =
     (if n < 10 then [digit_char n] else string_of_nat (n div 10) @ [digit_char (n mod 10)])"

declare string_of_nat.simps [simp del]

definition string_of_int :: "int \<Rightarrow> string" where
  "string_of_int i = (if i < 0 then CHR ''-'' # string_of_nat (nat (- i)) else string_of_nat (nat i))"

definition padStart2 :: "string \<Rightarrow> string" where
  "padStart2 s = replicate (2 - length s) (CHR ''0'') @ s"

text \<open>\<open>String(v)\<close>, as a property key is computed from a value.\<close>

fun to_key :: "jsval \<Rightarrow> string" where
  "to_key JUndefined = ''undefined''"
| "to_key JNull = ''null''"
| "to_key (JBool b) = (if b then ''true'' else ''false'')"
| "to_key (JNum n) = string_of_int n"
| "to_key (JStr s) = s"
| "to_key (JObj ob) = ''[object Object]''"

section \<open>dateUtils.formatDateKey\<close>

fun formatDateKey :: "jsdate \<Rightarrow> string" where
  "formatDateKey (DateOf year month day) =
     string_of_int year @ ''-'' @ padStart2 (string_of_nat (month + 1)) @ ''-'' @
     padStart2 (string_of_nat day)"
| "formatDateKey InvalidDate = ''NaN-NaN-NaN''"

section \<open>The item model (todoUtils.js)\<close>

text \<open>The \<open>updates\<close> object of \<open>updateTodo\<close>; a field that is absent reads \<open>undefined\<close>.\<close>

record updates =
  title_upd :: jsval
  description_upd :: jsval
  completed_upd :: jsval
  date_upd :: arg

definition no_updates :: updates where
  "no_updates = \<lparr>title_upd = JUndefined, description_upd = JUndefined,
                 completed_upd = JUndefined, date_upd = Val JUndefined\<rparr>"

definition update_title :: "obj \<Rightarrow> jsval \<Rightarrow> error + obj" where
  "update_title todo t =
     (if t \<noteq> JUndefined then
        (case t of
           JStr s \<Rightarrow> if length (trim s) = 0 then Inl InvalidTitle
                     else Inr (set_prop todo ''title'' (JStr (trim s)))
         | _ \<Rightarrow> Inl InvalidTitle)
      else Inr todo)"

definition update_description :: "obj \<Rightarrow> jsval \<Rightarrow> obj" where
  "update_description todo d =
     (if d \<noteq> JUndefined then
        set_prop todo ''description'' (case d of JStr s \<Rightarrow> JStr (trim s) | _ \<Rightarrow> JStr [])
      else todo)"

definition update_completed :: "obj \<Rightarrow> jsval \<Rightarrow> obj" where
  "update_completed todo c =
     (if c \<noteq> JUndefined then set_prop todo ''completed'' (JBool (Boolean c)) else todo)"

definition update_date :: "obj \<Rightarrow> arg \<Rightarrow> error + obj" where
  "update_date todo d =
     (if d \<noteq> Val JUndefined then
        (case d of
           DateObj dt \<Rightarrow> Inr (set_prop todo ''dateKey'' (JStr (formatDateKey dt)))
         | Val _ \<Rightarrow> Inl InvalidDateArg)
      else Inr todo)"

text \<open>\<open>updateTodo(existingTodo, updates)\<close>; \<open>now\<close> is \<open>new Date().toISOString()\<close>.\<close>

definition updateTodo :: "string \<Rightarrow> jsval \<Rightarrow> updates \<Rightarrow> error + obj" where
  "updateTodo now existingTodo upd =
     (case existingTodo of
        JObj todo \<Rightarrow>
          if falsy (get_prop todo ''id'') then Inl MissingId
          else (case update_title todo (title_upd upd) of
                  Inl e \<Rightarrow> Inl e
                | Inr t1 \<Rightarrow>
                    (case update_date (update_completed (update_description t1 (description_upd upd))
                                         (completed_upd upd)) (date_upd upd) of
                       Inl e \<Rightarrow> Inl e
                     | Inr t4 \<Rightarrow> Inr (set_prop t4 ''updatedAt'' (JStr now))))
      | _ \<Rightarrow> Inl InvalidExisting)"

definition toggleTodoComplete :: "string \<Rightarrow> obj \<Rightarrow> error + obj" where
  "toggleTodoComplete now todo =
     updateTodo now (JObj todo)
       (no_updates\<lparr>completed_upd := JBool (falsy (get_prop todo ''completed''))\<rparr>)"

definition requiredFields :: "string list" where
  "requiredFields = [''id'', ''title'', ''completed'', ''dateKey'', ''createdAt'', ''updatedAt'']"

definition nonempty_string :: "jsval \<Rightarrow> bool" where
  "nonempty_string v = (case v of JStr s \<Rightarrow> length s \<noteq> 0 | _ \<Rightarrow> False)"

definition nonblank_string :: "jsval \<Rightarrow> bool" where
  "nonblank_string v = (case v of JStr s \<Rightarrow> length (trim s) \<noteq> 0 | _ \<Rightarrow> False)"

definition is_boolean :: "jsval \<Rightarrow> bool" where
  "is_boolean v = (case v of JBool _ \<Rightarrow> True | _ \<Rightarrow> False)"

definition is_date_key :: "jsval \<Rightarrow> bool" where
  "is_date_key v = (case v of JStr s \<Rightarrow> date_key_format s | _ \<Rightarrow> False)"

definition is_string :: "jsval \<Rightarrow> bool" where
  "is_string v = (case v of JStr _ \<Rightarrow> True | _ \<Rightarrow> False)"

definition validateTodo :: "jsval \<Rightarrow> error + bool" where
  "validateTodo todo =
     (case todo of
        JObj t \<Rightarrow>
          (let missingFields = filter (\<lambda>field. \<not> has_prop field t) requiredFields
           in if length missingFields > 0 then Inl (MissingFields missingFields)
              else if \<not> nonempty_string (get_prop t ''id'') then Inl (InvalidField ''id'')
              else if \<not> nonblank_string (get_prop t ''title'') then Inl (InvalidField ''title'')
              else if \<not> is_boolean (get_prop t ''completed'') then Inl (InvalidField ''completed'')
              else if \<not> is_date_key (get_prop t ''dateKey'') then Inl (InvalidField ''dateKey'')
              else if \<not> is_string (get_prop t ''description'') then Inl (InvalidField ''description'')
              else Inr True)
      | _ \<Rightarrow> Inl NotAnObject)"

section \<open>The collection engine (todoUtils.js)\<close>

text \<open>
  A collection is the object from date key to the array of that day's todos, as the list
  of its properties in the order \<open>for ... in\<close> visits them. A key that is assigned for
  the first time goes to the end of that order, which is what the runtime does for keys
  that are not array indices, such as date keys.
\<close>

type_synonym collection = "(string \<times> obj list) list"

text \<open>\<open>Array.prototype.findIndex\<close>: the first position that satisfies the test, or -1.\<close>

fun findIndex :: "('a \<Rightarrow> bool) \<Rightarrow> 'a list \<Rightarrow> int" where
  "findIndex P [] = - 1"
| "findIndex P (x # xs) =
     (if P x then 0 else (let i = findIndex P xs in if i = - 1 then - 1 else i + 1))"

text \<open>The test \<open>t.id === todoId\<close> for a string \<open>todoId\<close>.\<close>

definition has_id :: "string \<Rightarrow> obj \<Rightarrow> bool" where
  "has_id todoId t = (get_prop t ''id'' = JStr todoId)"

text \<open>\<open>collection[key] || []\<close>: an array is never falsy.\<close>

definition bucket :: "collection \<Rightarrow> string \<Rightarrow> obj list" where
  "bucket c k = (case map_of c k of None \<Rightarrow> [] | Some b \<Rightarrow> b)"

text \<open>The properties of a value that passed \<open>validateTodo\<close>.\<close>

fun props :: "jsval \<Rightarrow> obj" where
  "props (JObj t) = t"
| "props _ = []"

definition addTodoToCollection :: "collection \<Rightarrow> jsval \<Rightarrow> error + collection" where
  "addTodoToCollection todosCollection todo =
     (case validateTodo todo of
        Inl e \<Rightarrow> Inl e
      | Inr _ \<Rightarrow>
          (let t = props todo;
               dateKey = to_key (get_prop t ''dateKey'');
               existingIndex =
                 findIndex (\<lambda>t'. get_prop t' ''id'' = get_prop t ''id'') (bucket todosCollection dateKey)
           in if existingIndex \<noteq> - 1 then Inl (AlreadyExists (get_prop t ''id'') dateKey)
              else Inr (AList.update dateKey (bucket todosCollection dateKey @ [t]) todosCollection)))"

text \<open>The search loop of \<open>updateTodoInCollection\<close> and \<open>removeTodoFromCollection\<close>: the
  first date key, in enumeration order, whose array holds the id, with the index there.\<close>

fun find_todo :: "string \<Rightarrow> collection \<Rightarrow> (string \<times> obj list \<times> int) option" where
  "find_todo todoId [] = None"
| "find_todo todoId ((dateKey, todos) # rest) =
     (let todoIndex = findIndex (has_id todoId) todos
      in if todoIndex \<noteq> - 1 then Some (dateKey, todos, todoIndex) else find_todo todoId rest)"

text \<open>Remove the id from the array under \<open>dateKey\<close> and delete the key when the array is
  left empty.\<close>

definition remove_from :: "collection \<Rightarrow> string \<Rightarrow> obj list \<Rightarrow> string \<Rightarrow> collection" where
  "remove_from c dateKey todos todoId =
     (let remaining = filter (\<lambda>t. \<not> has_id todoId t) todos
      in if length remaining = 0 then AList.delete dateKey c
         else AList.update dateKey remaining c)"

definition updateTodoInCollection ::
    "string \<Rightarrow> collection \<Rightarrow> string \<Rightarrow> updates \<Rightarrow> error + collection" where
  "updateTodoInCollection now todosCollection todoId upd =
     (case find_todo todoId todosCollection of
        None \<Rightarrow> Inl (NotFound todoId)
      | Some (dateKey, todos, todoIndex) \<Rightarrow>
          (case updateTodo now (JObj (todos ! nat todoIndex)) upd of
             Inl e \<Rightarrow> Inl e
           | Inr updatedTodo \<Rightarrow>
               (let updatedCollection = remove_from todosCollection dateKey todos todoId;
                    newDateKey = to_key (get_prop updatedTodo ''dateKey'')
                in Inr (AList.update newDateKey (bucket updatedCollection newDateKey @ [updatedTodo])
                          updatedCollection))))"

definition removeTodoFromCollection :: "collection \<Rightarrow> string \<Rightarrow> error + collection" where
  "removeTodoFromCollection todosCollection todoId =
     (case find_todo todoId todosCollection of
        None \<Rightarrow> Inl (NotFound todoId)
      | Some (dateKey, todos, todoIndex) \<Rightarrow> Inr (remove_from todosCollection dateKey todos todoId))"

text \<open>\<open>getTodosForDate\<close>: a string is the key itself, a \<open>Date\<close> is formatted, and any
  other value has no \<open>getFullYear\<close> method.\<close>

fun getTodosForDate :: "collection \<Rightarrow> arg \<Rightarrow> error + obj list" where
  "getTodosForDate todosCollection (Val (JStr dateKey)) = Inr (bucket todosCollection dateKey)"
| "getTodosForDate todosCollection (DateObj d) = Inr (bucket todosCollection (formatDateKey d))"
| "getTodosForDate todosCollection (Val _) = Inl TypeError"

definition getAllTodos :: "collection \<Rightarrow> obj list" where
  "getAllTodos todosCollection = concat (map snd todosCollection)"

text \<open>
  Numbers are binary64 in the source. A finite binary64 value is a rational number, and
  division and multiplication give the exact result rounded to the nearest such value,
  ties to the even significand: 53 significant bits above the exponent -1022, multiples
  of \<open>2 ^ -1074\<close> below it. A result of magnitude \<open>2 ^ 1024\<close> or more is \<open>Infinity\<close> in
  the source and has no value here; \<open>getTodoStats\<close> divides a count by a count that is
  not smaller and multiplies by 100. Array lengths are integers below \<open>2 ^ 32\<close>, which
  binary64 holds exactly.
\<close>

text \<open>The number of binary digits of a positive integer.\<close>

function bit_length :: "int \<Rightarrow> int" where
  "bit_length n = (if n \<le> 0 then 0 else 1 + bit_length (n div 2))"
  by pat_completeness auto
termination
  by (relation "measure nat") auto

declare bit_length.simps [simp del]

text \<open>The exponent \<open>e\<close> of a positive rational \<open>x\<close>, with \<open>2 ^ e \<le> x < 2 ^ (e + 1)\<close>: the
  difference of the bit lengths of numerator and denominator, or one less.\<close>

definition exponent_of :: "rat \<Rightarrow> int" where
  "exponent_of x =
     (let e = bit_length (fst (quotient_of x)) - bit_length (snd (quotient_of x))
      in if x < power_int 2 e then e - 1 else e)"

definition round_half_even :: "rat \<Rightarrow> int" where
  "round_half_even y =
     (let f = \<lfloor>y\<rfloor>; r = y - of_int f
      in if r < 1 / 2 then f else if 1 / 2 < r then f + 1 else if even f then f else f + 1)"

definition round64 :: "rat \<Rightarrow> rat" where
  "round64 x =
     (if x = 0 then 0
      else (let e = max (exponent_of \<bar>x\<bar>) (- 1022)
            in sgn x * of_int (round_half_even (\<bar>x\<bar> * power_int 2 (52 - e))) *
               power_int 2 (e - 52)))"

text \<open>The operators \<open>/\<close> (for a divisor that is not zero) and \<open>*\<close>.\<close>

definition fdiv :: "rat \<Rightarrow> rat \<Rightarrow> rat" where
  "fdiv a b = round64 (a / b)"

definition fmul :: "rat \<Rightarrow> rat \<Rightarrow> rat" where
  "fmul a b = round64 (a * b)"

record stats =
  total :: nat
  completed :: nat
  pending :: nat
  completionRate :: rat

definition getTodoStats :: "collection \<Rightarrow> stats" where
  "getTodoStats todosCollection =
     (let allTodos = getAllTodos todosCollection;
          completedTodos = filter (\<lambda>todo. Boolean (get_prop todo ''completed'')) allTodos;
          pendingTodos = filter (\<lambda>todo. \<not> Boolean (get_prop todo ''completed'')) allTodos
      in \<lparr>total = length allTodos,
          completed = length completedTodos,
          pending = length pendingTodos,
          completionRate =
            (if length allTodos > 0
             then fmul (fdiv (of_nat (length completedTodos)) (of_nat (length allTodos))) 100
             else 0)\<rparr>)"

text \<open>The filter of \<open>searchTodos\<close>: \<open>toLowerCase\<close> on a title or description that is not a
  string is a TypeError, and \<open>||\<close> reads the description only when the title does not
  match.\<close>

definition lower_of :: "jsval \<Rightarrow> error + string" where
  "lower_of v = (case v of JStr s \<Rightarrow> Inr (toLowerCase s) | _ \<Rightarrow> Inl TypeError)"

definition matches :: "string \<Rightarrow> obj \<Rightarrow> error + bool" where
  "matches term todo =
     (case lower_of (get_prop todo ''title'') of
        Inl e \<Rightarrow> Inl e
      | Inr t \<Rightarrow>
          if str_includes t term then Inr True
          else (case lower_of (get_prop todo ''description'') of
                  Inl e \<Rightarrow> Inl e
                | Inr d \<Rightarrow> Inr (str_includes d term)))"

fun filter_err :: "('a \<Rightarrow> error + bool) \<Rightarrow> 'a list \<Rightarrow> error + 'a list" where
  "filter_err P [] = Inr []"
| "filter_err P (x # xs) =
     (case P x of
        Inl e \<Rightarrow> Inl e
      | Inr b \<Rightarrow>
          (case filter_err P xs of
             Inl e \<Rightarrow> Inl e
           | Inr ys \<Rightarrow> Inr (if b then x # ys else ys)))"

fun search_loop :: "string \<Rightarrow> collection \<Rightarrow> error + obj list" where
  "search_loop term [] = Inr []"
| "search_loop term ((dateKey, todos) # rest) =
     (case filter_err (matches term) todos of
        Inl e \<Rightarrow> Inl e
      | Inr matchingTodos \<Rightarrow>
          (case search_loop term rest of
             Inl e \<Rightarrow> Inl e
           | Inr results \<Rightarrow>
               Inr (map (\<lambda>todo. set_prop todo ''dateKey'' (JStr dateKey)) matchingTodos @ results)))"

definition searchTodos :: "collection \<Rightarrow> jsval \<Rightarrow> error + obj list" where
  "searchTodos todosCollection searchTerm =
     (case searchTerm of
        JStr s \<Rightarrow>
          if falsy searchTerm then Inr []
          else search_loop (trim (toLowerCase s)) todosCollection
      | _ \<Rightarrow> Inr [])"

section \<open>The facade (hooks/useLocalStorage.js, hooks/useTodos.js)\<close>

text \<open>
  What one call reads from its environment: \<open>new Date().toISOString()\<close>,
  \<open>new Date()\<close> and \<open>generateTodoId()\<close>. All reads of the clock during one call
  return the same value.
\<close>

record env =
  nowISO :: string
  today :: jsdate
  freshId :: string

definition createTodo :: "env \<Rightarrow> jsval \<Rightarrow> jsval \<Rightarrow> arg \<Rightarrow> error + obj" where
  "createTodo e title description date =
     (if falsy title \<or> \<not> nonblank_string title then Inl TitleRequired
      else (case (if date = Val JUndefined then DateObj (today e) else date) of
              Val _ \<Rightarrow> Inl TypeError
            | DateObj d \<Rightarrow>
                (case (if description = JUndefined then JStr [] else description) of
                   JStr ds \<Rightarrow>
                     Inr [(''id'', JStr (freshId e)),
                          (''title'', JStr (trim (case title of JStr s \<Rightarrow> s | _ \<Rightarrow> []))),
                          (''description'', JStr (trim ds)),
                          (''completed'', JBool False),
                          (''dateKey'', JStr (formatDateKey d)),
                          (''createdAt'', JStr (nowISO e)),
                          (''updatedAt'', JStr (nowISO e))]
                 | _ \<Rightarrow> Inl TypeError)))"

text \<open>
  The storage boundary: \<open>window.localStorage.setItem(key, JSON.stringify(value))\<close> is a
  parameter that, from the state \<open>'s\<close> of the store, either throws (giving the message
  of what it threw) or gives the store's next state. Serialisation is part of it.
\<close>

type_synonym 's setItem = "'s \<Rightarrow> string \<Rightarrow> collection \<Rightarrow> string + 's"

definition handleStorageOperation :: "string + 'a \<Rightarrow> string \<Rightarrow> error + 'a" where
  "handleStorageOperation operation operationName =
     (case operation of
        Inl message \<Rightarrow>
          Inl (StorageError (if message = [] then ''Storage operation failed'' else message)
                 operationName)
      | Inr r \<Rightarrow> Inr r)"

record status =
  loading :: bool
  error :: "error option"
  lastUpdated :: "string option"

text \<open>The hook \<open>useTodosStorage\<close>: the visible value \<open>storedValue\<close> (the \<open>todos\<close> of
  \<open>useTodos\<close>), the status object and the store behind them.\<close>

record 's facade =
  storedValue :: collection
  status :: status
  localStorage :: 's

definition setValue :: "'s setItem \<Rightarrow> env \<Rightarrow> 's facade \<Rightarrow> collection \<Rightarrow> bool \<times> 's facade" where
  "setValue setItem e st valueToStore =
     (case handleStorageOperation (setItem (localStorage st) ''todos'' valueToStore) ''setItem:todos'' of
        Inr s' \<Rightarrow>
          (True, st\<lparr>localStorage := s', storedValue := valueToStore,
                    status := \<lparr>loading = False, error = None, lastUpdated = Some (nowISO e)\<rparr>\<rparr>)
      | Inl err \<Rightarrow>
          (False, st\<lparr>status := \<lparr>loading = False, error = Some err, lastUpdated = None\<rparr>\<rparr>))"

definition find_by_id :: "string \<Rightarrow> collection \<Rightarrow> obj option" where
  "find_by_id todoId c = List.find (has_id todoId) (getAllTodos c)"

definition addTodo ::
    "'s setItem \<Rightarrow> env \<Rightarrow> 's facade \<Rightarrow> jsval \<Rightarrow> jsval \<Rightarrow> arg \<Rightarrow> (error + obj) \<times> 's facade" where
  "addTodo setItem e st title description date =
     (case createTodo e title description date of
        Inl err \<Rightarrow> (Inl (Failed ''add todo'' err), st)
      | Inr newTodo \<Rightarrow>
          (case addTodoToCollection (storedValue st) (JObj newTodo) of
             Inl err \<Rightarrow> (Inl (Failed ''add todo'' err), st)
           | Inr updatedTodos \<Rightarrow> (Inr newTodo, snd (setValue setItem e st updatedTodos))))"

definition updateTodoById ::
    "'s setItem \<Rightarrow> env \<Rightarrow> 's facade \<Rightarrow> string \<Rightarrow> updates \<Rightarrow> (error + jsval) \<times> 's facade" where
  "updateTodoById setItem e st todoId upd =
     (case updateTodoInCollection (nowISO e) (storedValue st) todoId upd of
        Inl err \<Rightarrow> (Inl (Failed ''update todo'' err), st)
      | Inr updatedTodos \<Rightarrow>
          (Inr (case find_by_id todoId updatedTodos of None \<Rightarrow> JUndefined | Some t \<Rightarrow> JObj t),
           snd (setValue setItem e st updatedTodos)))"

definition deleteTodo ::
    "'s setItem \<Rightarrow> env \<Rightarrow> 's facade \<Rightarrow> string \<Rightarrow> (error + bool) \<times> 's facade" where
  "deleteTodo setItem e st todoId =
     (case removeTodoFromCollection (storedValue st) todoId of
        Inl err \<Rightarrow> (Inl (Failed ''delete todo'' err), st)
      | Inr updatedTodos \<Rightarrow> (Inr True, snd (setValue setItem e st updatedTodos)))"

definition toggleTodoCompleteById ::
    "'s setItem \<Rightarrow> env \<Rightarrow> 's facade \<Rightarrow> string \<Rightarrow> (error + obj) \<times> 's facade" where
  "toggleTodoCompleteById setItem e st todoId =
     (case find_by_id todoId (storedValue st) of
        None \<Rightarrow> (Inl (Failed ''toggle todo completion'' (NotFound todoId)), st)
      | Some currentTodo \<Rightarrow>
          (case toggleTodoComplete (nowISO e) currentTodo of
             Inl err \<Rightarrow> (Inl (Failed ''toggle todo completion'' err), st)
           | Inr toggledTodo \<Rightarrow>
               (case updateTodoInCollection (nowISO e) (storedValue st) todoId
                       (no_updates\<lparr>completed_upd := get_prop toggledTodo ''completed''\<rparr>) of
                  Inl err \<Rightarrow> (Inl (Failed ''toggle todo completion'' err), st)
                | Inr updatedTodos \<Rightarrow> (Inr toggledTodo, snd (setValue setItem e st updatedTodos)))))"

definition clearAllTodos :: "'s setItem \<Rightarrow> env \<Rightarrow> 's facade \<Rightarrow> (error + bool) \<times> 's facade" where
  "clearAllTodos setItem e st = (Inr True, snd (setValue setItem e st []))"

definition clearTodosForDate ::
    "'s setItem \<Rightarrow> env \<Rightarrow> 's facade \<Rightarrow> arg \<Rightarrow> (error + bool) \<times> 's facade" where
  "clearTodosForDate setItem e st date =
     (case date of
        Val (JStr dateKey) \<Rightarrow>
          (Inr True, snd (setValue setItem e st (AList.delete dateKey (storedValue st))))
      | DateObj d \<Rightarrow>
          (Inr True, snd (setValue setItem e st (AList.delete (formatDateKey d) (storedValue st))))
      | Val _ \<Rightarrow> (Inl (Failed ''clear todos for date'' TypeError), st))"

text \<open>The loop of \<open>bulkUpdateTodos\<close>, on the local copy \<open>updatedTodos\<close> and the list
  \<open>updatedTodosList\<close>.\<close>

fun bulk_update_loop ::
    "string \<Rightarrow> updates \<Rightarrow> string list \<Rightarrow> collection \<Rightarrow> obj list \<Rightarrow> error + collection \<times> obj list" where
  "bulk_update_loop now upd [] updatedTodos updatedTodosList = Inr (updatedTodos, updatedTodosList)"
| "bulk_update_loop now upd (todoId # todoIds) updatedTodos updatedTodosList =
     (case updateTodoInCollection now updatedTodos todoId upd of
        Inl err \<Rightarrow> Inl err
      | Inr next \<Rightarrow>
          bulk_update_loop now upd todoIds next
            (case find_by_id todoId next of
               None \<Rightarrow> updatedTodosList
             | Some updatedTodo \<Rightarrow> updatedTodosList @ [updatedTodo]))"

definition bulkUpdateTodos ::
    "'s setItem \<Rightarrow> env \<Rightarrow> 's facade \<Rightarrow> string list \<Rightarrow> updates \<Rightarrow> (error + obj list) \<times> 's facade" where
  "bulkUpdateTodos setItem e st todoIds upd =
     (case bulk_update_loop (nowISO e) upd todoIds (storedValue st) [] of
        Inl err \<Rightarrow> (Inl (Failed ''bulk update todos'' err), st)
      | Inr (updatedTodos, updatedTodosList) \<Rightarrow>
          (Inr updatedTodosList, snd (setValue setItem e st updatedTodos)))"

fun bulk_delete_loop :: "string list \<Rightarrow> collection \<Rightarrow> error + collection" where
  "bulk_delete_loop [] updatedTodos = Inr updatedTodos"
| "bulk_delete_loop (todoId # todoIds) updatedTodos =
     (case removeTodoFromCollection updatedTodos todoId of
        Inl err \<Rightarrow> Inl err
      | Inr next \<Rightarrow> bulk_delete_loop todoIds next)"

definition bulkDeleteTodos ::
    "'s setItem \<Rightarrow> env \<Rightarrow> 's facade \<Rightarrow> string list \<Rightarrow> (error + bool) \<times> 's facade" where
  "bulkDeleteTodos setItem e st todoIds =
     (case bulk_delete_loop todoIds (storedValue st) of
        Inl err \<Rightarrow> (Inl (Failed ''bulk delete todos'' err), st)
      | Inr updatedTodos \<Rightarrow> (Inr True, snd (setValue setItem e st updatedTodos)))"

text \<open>The mutating calls that \<open>useTodos\<close> returns, and what each resolves to.\<close>

datatype call =
    AddTodo jsval jsval arg
  | UpdateTodo string updates
  | DeleteTodo string
  | ToggleTodoComplete string
  | ClearAllTodos
  | ClearTodosForDate arg
  | BulkUpdateTodos "string list" updates
  | BulkDeleteTodos "string list"

datatype result = RTodo obj | RVal jsval | RBool bool | RTodos "obj list"

fun perform :: "'s setItem \<Rightarrow> env \<Rightarrow> 's facade \<Rightarrow> call \<Rightarrow> (error + result) \<times> 's facade" where
  "perform setItem e st (AddTodo title description date) =
     apfst (map_sum id RTodo) (addTodo setItem e st title description date)"
| "perform setItem e st (UpdateTodo todoId upd) =
     apfst (map_sum id RVal) (updateTodoById setItem e st todoId upd)"
| "perform setItem e st (DeleteTodo todoId) =
     apfst (map_sum id RBool) (deleteTodo setItem e st todoId)"
| "perform setItem e st (ToggleTodoComplete todoId) =
     apfst (map_sum id RTodo) (toggleTodoCompleteById setItem e st todoId)"
| "perform setItem e st ClearAllTodos =
     apfst (map_sum id RBool) (clearAllTodos setItem e st)"
| "perform setItem e st (ClearTodosForDate date) =
     apfst (map_sum id RBool) (clearTodosForDate setItem e st date)"
| "perform setItem e st (BulkUpdateTodos todoIds upd) =
     apfst (map_sum id RTodos) (bulkUpdateTodos setItem e st todoIds upd)"
| "perform setItem e st (BulkDeleteTodos todoIds) =
     apfst (map_sum id RBool) (bulkDeleteTodos setItem e st todoIds)"

text \<open>A store that refuses every write, and one that keeps what is written.\<close>

definition refusing :: "string \<Rightarrow> unit setItem" where
  "refusing message s key v = Inl message"

definition keeping :: "(string \<times> collection) list setItem" where
  "keeping s key v = Inr (AList.update key v s)"

section \<open>Sequences of engine operations\<close>

datatype operation =
    Insert jsval
  | Remove string
  | Update string updates

fun apply_operation :: "string \<Rightarrow> collection \<Rightarrow> operation \<Rightarrow> error + collection" where
  "apply_operation now c (Insert todo) = addTodoToCollection c todo"
| "apply_operation now c (Remove todoId) = removeTodoFromCollection c todoId"
| "apply_operation now c (Update todoId upd) = updateTodoInCollection now c todoId upd"

text \<open>A caller keeps the collection it had when an operation throws.\<close>

definition step :: "string \<Rightarrow> collection \<Rightarrow> operation \<Rightarrow> collection" where
  "step now c op = (case apply_operation now c op of Inl e \<Rightarrow> c | Inr c' \<Rightarrow> c')"

definition run :: "string \<Rightarrow> collection \<Rightarrow> operation list \<Rightarrow> collection" where
  "run now c ops = foldl (step now) c ops"

section \<open>Notions used in the statements\<close>

text \<open>The fields that \<open>validateTodo\<close> checks after the presence test, in its order, and
  the condition it puts on each.\<close>

definition checkedFields :: "string list" where
  "checkedFields = [''id'', ''title'', ''completed'', ''dateKey'', ''description'']"

definition field_ok :: "obj \<Rightarrow> string \<Rightarrow> bool" where
  "field_ok t f =
     (if f = ''id'' then nonempty_string (get_prop t ''id'')
      else if f = ''title'' then nonblank_string (get_prop t ''title'')
      else if f = ''completed'' then is_boolean (get_prop t ''completed'')
      else if f = ''dateKey'' then is_date_key (get_prop t ''dateKey'')
      else if f = ''description'' then is_string (get_prop t ''description'')
      else True)"

definition missing_fields :: "obj \<Rightarrow> string list" where
  "missing_fields t = filter (\<lambda>f. \<not> has_prop f t) requiredFields"

definition invalid_fields :: "obj \<Rightarrow> string list" where
  "invalid_fields t = filter (\<lambda>f. \<not> field_ok t f) checkedFields"

text \<open>Every field of an item that is missing or invalid, and the fields that a failure
  of \<open>validateTodo\<close> names.\<close>

definition violations :: "obj \<Rightarrow> string list" where
  "violations t =
     filter (\<lambda>f. \<not> has_prop f t \<or> \<not> field_ok t f) (requiredFields @ [''description''])"

fun reported :: "error \<Rightarrow> string list" where
  "reported (MissingFields fs) = fs"
| "reported (InvalidField f) = [f]"
| "reported _ = []"

text \<open>What \<open>updateTodo\<close> stores for a \<open>completed\<close> and a \<open>description\<close> of the patch.\<close>

definition coerced_completed :: "jsval \<Rightarrow> jsval \<Rightarrow> jsval" where
  "coerced_completed old c = (if c = JUndefined then old else JBool (Boolean c))"

definition coerced_description :: "jsval \<Rightarrow> jsval \<Rightarrow> jsval" where
  "coerced_description old d =
     (if d = JUndefined then old else case d of JStr s \<Rightarrow> JStr (trim s) | _ \<Rightarrow> JStr [])"

text \<open>Every item of a collection, bucket after bucket, each with its \<open>dateKey\<close> set to
  the key of its bucket: the objects \<open>{ ...todo, dateKey }\<close> of \<open>searchTodos\<close>.\<close>

definition tagged :: "collection \<Rightarrow> obj list" where
  "tagged c =
     concat (map (\<lambda>(dateKey, todos). map (\<lambda>todo. set_prop todo ''dateKey'' (JStr dateKey)) todos) c)"

text \<open>No date key of the collection holds an empty array.\<close>

definition no_empty_buckets :: "collection \<Rightarrow> bool" where
  "no_empty_buckets c = (\<forall>(dateKey, todos)\<in>set c. todos \<noteq> [])"

text \<open>How many items of an array, and of a whole collection, have the id; whether the
  id occurs at all; and the patches on which \<open>updateTodo\<close> does not throw: a title that is
  absent or a non-blank string, a date that is absent or a \<open>Date\<close>.\<close>

definition count_in :: "string \<Rightarrow> obj list \<Rightarrow> nat" where
  "count_in todoId todos = length (filter (has_id todoId) todos)"

definition count_id :: "string \<Rightarrow> collection \<Rightarrow> nat" where
  "count_id todoId c = count_in todoId (getAllTodos c)"

definition present :: "string \<Rightarrow> collection \<Rightarrow> bool" where
  "present todoId c = (\<exists>t\<in>set (getAllTodos c). has_id todoId t)"

definition patch_ok :: "updates \<Rightarrow> bool" where
  "patch_ok upd =
     ((title_upd upd = JUndefined \<or> nonblank_string (title_upd upd)) \<and>
      (case date_upd upd of Val v \<Rightarrow> v = JUndefined | DateObj d \<Rightarrow> True))"

text \<open>The status object after a failed and after a successful write, and the state of
  the hook after a write of \<open>v\<close> was attempted from the state \<open>st\<close>.\<close>

definition failure_status :: "string \<Rightarrow> status" where
  "failure_status message =
     \<lparr>loading = False,
      error = Some (StorageError (if message = [] then ''Storage operation failed'' else message)
                ''setItem:todos''),
      lastUpdated = None\<rparr>"

definition success_status :: "env \<Rightarrow> status" where
  "success_status e = \<lparr>loading = False, error = None, lastUpdated = Some (nowISO e)\<rparr>"

definition written :: "'s setItem \<Rightarrow> env \<Rightarrow> 's facade \<Rightarrow> collection \<Rightarrow> 's facade" where
  "written setItem e st v =
     (case setItem (localStorage st) ''todos'' v of
        Inl message \<Rightarrow> st\<lparr>status := failure_status message\<rparr>
      | Inr s' \<Rightarrow> st\<lparr>localStorage := s', storedValue := v, status := success_status e\<rparr>)"

text \<open>\<open>updateTodoInCollection\<close> applied to each id in turn, stopping at the first failure.\<close>

fun apply_updates :: "string \<Rightarrow> updates \<Rightarrow> string list \<Rightarrow> collection \<Rightarrow> error + collection" where
  "apply_updates now upd [] c = Inr c"
| "apply_updates now upd (todoId # todoIds) c =
     (case updateTodoInCollection now c todoId upd of
        Inl err \<Rightarrow> Inl err
      | Inr c' \<Rightarrow> apply_updates now upd todoIds c')"

section \<open>Example data\<close>

text \<open>A todo as \<open>createTodo\<close> builds it, with the given id, title, completion flag and day.\<close>

definition todo_of :: "string \<Rightarrow> string \<Rightarrow> bool \<Rightarrow> string \<Rightarrow> obj" where
  "todo_of i t c k =
     [(''id'', JStr i), (''title'', JStr t), (''description'', JStr []), (''completed'', JBool c),
      (''dateKey'', JStr k), (''createdAt'', JStr ''2024-01-01T09:00:00.000Z''),
      (''updatedAt'', JStr ''2024-01-01T09:00:00.000Z'')]"

definition stats_example :: collection where
  "stats_example =
     [(''2024-01-05'', [todo_of ''a'' ''Pay rent'' True ''2024-01-05'',
                        todo_of ''b'' ''Call Ana'' False ''2024-01-05'']),
      (''2024-01-06'', [todo_of ''c'' ''Team meeting'' False ''2024-01-06''])]"

definition later :: string where
  "later = ''2024-02-01T10:00:00.000Z''"

definition rent :: obj where
  "rent = set_prop (todo_of ''a'' ''Pay rent'' False ''2024-01-05'') ''description'' (JStr ''due Friday'')"

definition bad_todo :: obj where
  "bad_todo = set_prop (set_prop rent ''id'' (JStr [])) ''title'' (JStr ''  '')"

definition coercing_patch :: updates where
  "coercing_patch = no_updates\<lparr>description_upd := JNum 5, completed_upd := JStr ''no''\<rparr>"

definition rent_coerced :: obj where
  "rent_coerced =
     [(''id'', JStr ''a''), (''title'', JStr ''Pay rent''), (''description'', JStr []),
      (''completed'', JBool True), (''dateKey'', JStr ''2024-01-05''),
      (''createdAt'', JStr ''2024-01-01T09:00:00.000Z''), (''updatedAt'', JStr later)]"

definition rent_day :: collection where
  "rent_day = [(''2024-01-05'', [rent])]"

definition rent_again :: obj where
  "rent_again = set_prop rent ''dateKey'' (JStr ''2024-01-06'')"

definition call_ana :: obj where
  "call_ana = todo_of ''b'' ''Call Ana'' False ''2024-01-05''"

definition move_to_6th :: updates where
  "move_to_6th = no_updates\<lparr>date_upd := DateObj (DateOf 2024 0 6)\<rparr>"

definition busy_week :: "operation list" where
  "busy_week = [Insert (JObj rent), Insert (JObj call_ana), Remove ''a'', Remove ''zzz'', Update ''b'' move_to_6th]"

definition ana_moved :: obj where
  "ana_moved = set_prop (set_prop call_ana ''dateKey'' (JStr ''2024-01-06'')) ''updatedAt'' (JStr later)"

definition rent_and_ana :: collection where
  "rent_and_ana = [(''2024-01-05'', [rent, call_ana])]"

definition mark_done :: updates where
  "mark_done = no_updates\<lparr>completed_upd := JBool True\<rparr>"

definition rent_done :: obj where
  "rent_done = set_prop (set_prop rent ''completed'' (JBool True)) ''updatedAt'' (JStr later)"

definition team_meeting :: obj where
  "team_meeting = todo_of ''c'' ''Team meeting'' False ''2024-01-06''"

definition two_days :: collection where
  "two_days = [(''2024-01-05'', [rent]), (''2024-01-06'', [team_meeting])]"

definition rent_moved :: obj where
  "rent_moved = set_prop (set_prop rent ''dateKey'' (JStr ''2024-01-06'')) ''updatedAt'' (JStr later)"

definition idle :: status where
  "idle = \<lparr>loading = False, error = None, lastUpdated = None\<rparr>"

definition monday :: env where
  "monday = \<lparr>nowISO = later, today = DateOf 2024 1 1, freshId = ''todo_1706781600000_k3x9q2m1z''\<rparr>"

definition move_to_7th :: updates where
  "move_to_7th = no_updates\<lparr>date_upd := DateObj (DateOf 2024 0 7)\<rparr>"

definition rent_twice :: collection where
  "rent_twice = [(''2024-01-05'', [rent]), (''2024-01-06'', [rent_again])]"

definition rent_on_7th :: obj where
  "rent_on_7th = set_prop (set_prop rent ''dateKey'' (JStr ''2024-01-07'')) ''updatedAt'' (JStr later)"

definition full_store :: "unit facade" where
  "full_store = \<lparr>storedValue = rent_day, status = idle, localStorage = ()\<rparr>"

definition blank_title :: updates where
  "blank_title = no_updates\<lparr>title_upd := JStr '' ''\<rparr>"

definition shared_store :: "(string \<times> collection) list facade" where
  "shared_store =
     \<lparr>storedValue = rent_and_ana, status = idle, localStorage = [(''todos'', rent_and_ana)]\<rparr>"

section \<open>Properties of the engine\<close>

subsection \<open>Double-precision arithmetic\<close>

lemma bit_length_bounds:
  "0 < n \<Longrightarrow> 1 \<le> bit_length n \<and> 2 ^ nat (bit_length n - 1) \<le> n \<and> n < 2 ^ nat (bit_length n)"
proof (induction n rule: bit_length.induct)
  case (1 n)
  show ?case
  proof (cases "n div 2 = 0")
    case True
    with "1.prems" have n: "n = 1" by presburger
    have "bit_length 1 = 1"
      by (simp add: bit_length.simps [of 1] bit_length.simps [of 0])
    with n show ?thesis by simp
  next
    case False
    with "1.prems" have pos: "0 < n div 2" by presburger
    from "1.prems" have ih: "1 \<le> bit_length (n div 2) \<and>
        2 ^ nat (bit_length (n div 2) - 1) \<le> n div 2 \<and> n div 2 < 2 ^ nat (bit_length (n div 2))"
      using "1.IH" pos by simp
    let ?b = "bit_length (n div 2)"
    have b: "bit_length n = 1 + ?b"
      using "1.prems" by (simp add: bit_length.simps [of n])
    from ih have b1: "1 \<le> ?b" by simp
    have s1: "nat (1 + ?b) = Suc (nat ?b)"
      using b1 by linarith
    have s2: "nat ?b = Suc (nat (?b - 1))"
      using b1 by linarith
    from ih have l: "(2::int) ^ nat (?b - 1) \<le> n div 2" and h: "n div 2 < 2 ^ nat ?b"
      by simp_all
    have lo: "2 * 2 ^ nat (?b - 1) \<le> n"
      using l by linarith
    have hi: "n < 2 * 2 ^ nat ?b"
      using h by linarith
    have "2 ^ nat (1 + ?b - 1) \<le> n"
      using lo s2 by simp
    moreover have "n < 2 ^ nat (1 + ?b)"
      using hi s1 by simp
    ultimately show ?thesis
      unfolding b using b1 by simp
  qed
qed


lemma ratio_bounds:
  fixes A B P Q :: rat
  assumes "0 < P" "0 < Q" "A \<le> 2 * P" "P < A" "B \<le> 2 * Q" "Q < B"
  shows "P / Q < 2 * A / B" and "A / (2 * B) < P / Q"
proof -
  from assms have A: "0 < A" and B: "0 < B" by simp_all
  have "P * B < A * B"
    using assms(4) B by (rule mult_strict_right_mono)
  also have "A * B \<le> A * (2 * Q)"
    using assms(5) A by (simp add: mult_left_mono)
  finally have "P * B < 2 * A * Q" by (simp add: mult_ac)
  with assms(2) B show "P / Q < 2 * A / B"
    by (simp add: field_simps)
  have "A * Q \<le> (2 * P) * Q"
    using assms(3) assms(2) by (simp add: mult_right_mono)
  also have "(2 * P) * Q < (2 * P) * B"
    using assms(6) assms(1) by (simp add: mult_strict_left_mono)
  finally have "A * Q < 2 * B * P" by (simp add: mult_ac)
  with assms(2) B show "A / (2 * B) < P / Q"
    by (simp add: field_simps)
qed

lemma pos_int_Suc: "1 \<le> (k::int) \<Longrightarrow> \<exists>a. k = int (Suc a)"
  by (rule exI [of _ "nat (k - 1)"]) simp

lemma pow2_diff_nat: "power_int (2::rat) (int m - int n) = 2 ^ m / 2 ^ n"
proof -
  have "power_int (2::rat) (int m - int n) = power_int 2 (int m) / power_int 2 (int n)"
    by (rule power_int_diff) simp
  then show ?thesis
    by (simp only: power_int_of_nat)
qed

lemma pow2_succ: "power_int (2::rat) (e + 1) = 2 * power_int 2 e"
  by (simp add: power_int_add)

lemma pow2_pred: "power_int (2::rat) (e - 1) = power_int 2 e / 2"
  by (simp add: power_int_diff)

lemma bit_length_rat:
  assumes "0 < n"
  shows "\<exists>a. bit_length n = int (Suc a) \<and> (2::rat) ^ Suc a \<le> 2 * of_int n \<and>
     (of_int n :: rat) < 2 ^ Suc a"
proof -
  from bit_length_bounds [OF assms] have b1: "1 \<le> bit_length n"
    and l: "2 ^ nat (bit_length n - 1) \<le> n" and u: "n < 2 ^ nat (bit_length n)"
    by simp_all
  from pos_int_Suc [OF b1] obtain a where a: "bit_length n = int (Suc a)" ..
  have na: "nat (bit_length n) = Suc a" and nb: "nat (bit_length n - 1) = a"
    using a by linarith+
  from l have l2: "(2::int) ^ Suc a \<le> 2 * n"
    unfolding nb by simp
  from u have u2: "n < 2 ^ Suc a"
    unfolding na .
  have "(of_int (2 ^ Suc a) :: rat) \<le> of_int (2 * n)"
    using l2 by (simp only: of_int_le_iff)
  then have 1: "(2::rat) ^ Suc a \<le> 2 * of_int n"
    by simp
  have "(of_int n :: rat) < of_int (2 ^ Suc a)"
    using u2 by (simp only: of_int_less_iff)
  then have 2: "(of_int n :: rat) < 2 ^ Suc a"
    by simp
  from a 1 2 show ?thesis by blast
qed

lemma exponent_of_bounds:
  assumes "0 < x"
  shows "power_int 2 (exponent_of x) \<le> x \<and> x < power_int 2 (exponent_of x + 1)"
proof -
  obtain p q where pq: "quotient_of x = (p, q)" by (cases "quotient_of x")
  then have q: "0 < q" by (rule quotient_of_denom_pos)
  from pq have x: "x = of_int p / of_int q" by (rule quotient_of_div)
  with assms q have p: "0 < p"
    by (simp add: zero_less_divide_iff)
  from bit_length_rat [OF p] obtain a where a: "bit_length p = int (Suc a)"
    and 3: "(2::rat) ^ Suc a \<le> 2 * of_int p" and 4: "(of_int p :: rat) < 2 ^ Suc a"
    by blast
  from bit_length_rat [OF q] obtain b where b: "bit_length q = int (Suc b)"
    and 5: "(2::rat) ^ Suc b \<le> 2 * of_int q" and 6: "(of_int q :: rat) < 2 ^ Suc b"
    by blast
  have 1: "0 < (of_int p :: rat)" using p by simp
  have 2: "0 < (of_int q :: rat)" using q by simp
  let ?e = "bit_length p - bit_length q"
  have e0: "power_int (2::rat) ?e = 2 ^ Suc a / 2 ^ Suc b"
    unfolding a b by (rule pow2_diff_nat)
  have up: "x < power_int 2 (?e + 1)"
    using ratio_bounds(1) [OF 1 2 3 4 5 6] unfolding x pow2_succ e0 by simp
  have lo: "power_int 2 (?e - 1) < x"
    using ratio_bounds(2) [OF 1 2 3 4 5 6] unfolding x pow2_pred e0 by simp
  have ex: "exponent_of x = (if x < power_int 2 ?e then ?e - 1 else ?e)"
    by (simp add: exponent_of_def pq Let_def)
  show ?thesis
  proof (cases "x < power_int 2 ?e")
    case True
    with ex have "exponent_of x = ?e - 1" by simp
    with True lo show ?thesis by simp
  next
    case False
    with ex have "exponent_of x = ?e" by simp
    with False up show ?thesis by simp
  qed
qed

lemma round_half_even_near: "\<bar>of_int (round_half_even y) - y\<bar> \<le> 1 / 2"
proof -
  have "of_int \<lfloor>y\<rfloor> \<le> y" "y < of_int \<lfloor>y\<rfloor> + 1"
    by linarith+
  then show ?thesis
    by (auto simp: round_half_even_def Let_def)
qed

lemma round_half_even_nonneg: "0 \<le> y \<Longrightarrow> 0 \<le> round_half_even y"
  by (auto simp: round_half_even_def Let_def)


lemma exponent_of_less:
  assumes "0 < x" and "x < power_int 2 k"
  shows "exponent_of x < k"
proof (rule ccontr)
  assume "\<not> exponent_of x < k"
  then have "k \<le> exponent_of x" by simp
  then have "power_int (2::rat) k \<le> power_int 2 (exponent_of x)"
    by (rule power_int_increasing) simp
  with exponent_of_bounds [OF assms(1)] assms(2) show False
    by linarith
qed

lemma round64_pos:
  assumes "0 < x"
  shows "round64 x =
     of_int (round_half_even (x * power_int 2 (52 - max (exponent_of x) (- 1022)))) *
     power_int 2 (max (exponent_of x) (- 1022) - 52)"
  using assms by (simp add: round64_def Let_def)

lemma abs_scale: "0 < (u::rat) \<Longrightarrow> \<bar>a - b\<bar> * u = \<bar>a * u - b * u\<bar>"
proof -
  assume u: "0 < u"
  have "\<bar>a * u - b * u\<bar> = \<bar>(a - b) * u\<bar>"
    by (simp only: left_diff_distrib)
  also have "\<dots> = \<bar>a - b\<bar> * \<bar>u\<bar>"
    by (rule abs_mult)
  finally show ?thesis
    using u by simp
qed

lemma round64_near:
  assumes "0 < x" and "x < power_int 2 k" and "- 1021 \<le> k"
  shows "\<bar>round64 x - x\<bar> \<le> power_int 2 (k - 54)" and "0 \<le> round64 x"
proof -
  let ?e = "max (exponent_of x) (- 1022)"
  let ?m = "round_half_even (x * power_int 2 (52 - ?e))"
  let ?u = "power_int (2::rat) (?e - 52)"
  have u: "0 < ?u" by simp
  have r: "round64 x = of_int ?m * ?u"
    by (rule round64_pos [OF assms(1)])
  have one: "power_int (2::rat) (52 - ?e) * ?u = 1"
  proof -
    have "power_int (2::rat) ((52 - ?e) + (?e - 52)) = power_int 2 (52 - ?e) * ?u"
      by (rule power_int_add) simp
    then show ?thesis by simp
  qed
  have "\<bar>of_int ?m - x * power_int 2 (52 - ?e)\<bar> \<le> 1 / 2"
    by (rule round_half_even_near)
  then have "\<bar>of_int ?m - x * power_int 2 (52 - ?e)\<bar> * ?u \<le> 1 / 2 * ?u"
    using u by (simp only: mult_le_cancel_right_pos)
  moreover have "\<bar>of_int ?m - x * power_int 2 (52 - ?e)\<bar> * ?u =
      \<bar>of_int ?m * ?u - x * (power_int 2 (52 - ?e) * ?u)\<bar>"
    using abs_scale [OF u, of "of_int ?m" "x * power_int 2 (52 - ?e)"]
    by (simp only: mult.assoc)
  ultimately have near: "\<bar>round64 x - x\<bar> \<le> ?u / 2"
    unfolding r one by simp
  have "?e < k"
    using exponent_of_less [OF assms(1) assms(2)] assms(3) by linarith
  then have "?e - 53 \<le> k - 54" by linarith
  then have "power_int (2::rat) (?e - 53) \<le> power_int 2 (k - 54)"
    by (rule power_int_increasing) simp
  moreover have "?u / 2 = power_int (2::rat) (?e - 53)"
  proof -
    have "power_int (2::rat) ((?e - 52) - 1) = ?u / 2"
      by (rule pow2_pred)
    then show ?thesis by (simp add: algebra_simps)
  qed
  ultimately show "\<bar>round64 x - x\<bar> \<le> power_int 2 (k - 54)"
    using near by simp
  have "0 \<le> x * power_int 2 (52 - ?e)"
    using assms(1) by simp
  then have "0 \<le> ?m"
    by (rule round_half_even_nonneg)
  then show "0 \<le> round64 x"
    unfolding r using u by simp
qed


lemma round64_zero: "round64 0 = 0"
  by (simp add: round64_def)

lemma percentage_near:
  assumes "0 < t" and "c \<le> t"
  shows "\<bar>fmul (fdiv (of_nat c) (of_nat t)) 100 - 100 * of_nat c / of_nat t\<bar> \<le> 1 / 2 ^ 45"
proof (cases "c = 0")
  case True
  then show ?thesis
    by (simp add: fdiv_def fmul_def round64_zero)
next
  case False
  let ?q = "of_nat c / of_nat t :: rat"
  let ?d = "fdiv (of_nat c) (of_nat t)"
  have q0: "0 < ?q"
    using False assms(1) by simp
  have q1: "?q \<le> 1"
    using assms by simp
  have q2: "?q < power_int 2 1"
    using q1 by simp
  have dn: "\<bar>?d - ?q\<bar> \<le> power_int 2 (1 - 54)" and d0: "0 \<le> ?d"
    unfolding fdiv_def using round64_near [OF q0 q2] by simp_all
  then have dn': "\<bar>?d - ?q\<bar> \<le> 1 / 2 ^ 53"
    by (simp add: power_int_minus field_simps)
  define eps :: rat where "eps = 1 / 2 ^ 53"
  have eps: "\<bar>?d - ?q\<bar> \<le> eps"
    using dn' by (simp only: eps_def)
  show ?thesis
  proof (cases "?d = 0")
    case True
    with eps have "?q \<le> eps"
      using q0 by simp
    then have "100 * ?q \<le> 100 * eps"
      by linarith
    also have "100 * eps \<le> 1 / 2 ^ 45"
      by (simp add: eps_def)
    finally have "100 * ?q \<le> 1 / 2 ^ 45" .
    moreover have "fmul ?d 100 = 0"
      by (simp add: True fmul_def round64_zero)
    ultimately show ?thesis
      using q0 by simp
  next
    case False
    with d0 have y0: "0 < ?d * 100" by simp
    from eps q1 have "?d \<le> 1 + eps"
      by linarith
    then have "?d * 100 \<le> 100 + 100 * eps"
      by linarith
    also have "100 + 100 * eps < power_int 2 7"
      by (simp add: eps_def)
    finally have y1: "?d * 100 < power_int 2 7" .
    have "\<bar>fmul ?d 100 - ?d * 100\<bar> \<le> power_int 2 (7 - 54)"
      unfolding fmul_def using round64_near(1) [OF y0 y1] by simp
    then have m: "\<bar>fmul ?d 100 - ?d * 100\<bar> \<le> 1 / 2 ^ 47"
      by (simp add: power_int_minus field_simps)
    from eps have "\<bar>?d * 100 - 100 * ?q\<bar> \<le> 100 * eps"
      by linarith
    with m have "\<bar>fmul ?d 100 - 100 * ?q\<bar> \<le> 1 / 2 ^ 47 + 100 * eps"
      by linarith
    also have "1 / 2 ^ 47 + 100 * eps \<le> 1 / 2 ^ 45"
      by (simp add: eps_def)
    finally show ?thesis
      by simp
  qed
qed

subsection \<open>Statistics\<close>

lemma length_getAllTodos: "length (getAllTodos c) = (\<Sum>(k, b)\<leftarrow>c. length b)"
  by (induction c) (auto simp: getAllTodos_def)

text \<open>
  Claim C8. For every collection, \<open>getTodoStats\<close> returns a record whose \<open>total\<close> is the
  number of items over all buckets, whose \<open>completed\<close> counts the items with a true
  completion flag, with \<open>completed + pending = total\<close>, and whose \<open>completionRate\<close> is 0
  when \<open>total\<close> is 0 and otherwise \<open>completed / total * 100\<close> as the source computes it,
  the division and then the multiplication each rounded to binary64, which is within
  \<open>2 ^ -45\<close> of the exact percentage.
\<close>

theorem getTodoStats_correct:
  "total (getTodoStats c) = (\<Sum>(k, b)\<leftarrow>c. length b) \<and>
   completed (getTodoStats c) =
     length (filter (\<lambda>todo. Boolean (get_prop todo ''completed'')) (getAllTodos c)) \<and>
   completed (getTodoStats c) + pending (getTodoStats c) = total (getTodoStats c) \<and>
   (if total (getTodoStats c) = 0 then completionRate (getTodoStats c) = 0
    else completionRate (getTodoStats c) =
           fmul (fdiv (of_nat (completed (getTodoStats c))) (of_nat (total (getTodoStats c)))) 100 \<and>
         \<bar>completionRate (getTodoStats c) -
           100 * of_nat (completed (getTodoStats c)) / of_nat (total (getTodoStats c))\<bar>
           \<le> 1 / 2 ^ 45)"
proof -
  let ?all = "getAllTodos c"
  let ?done = "filter (\<lambda>todo. Boolean (get_prop todo ''completed'')) ?all"
  have T: "total (getTodoStats c) = length ?all"
    and C: "completed (getTodoStats c) = length ?done"
    and P: "pending (getTodoStats c) =
      length (filter (\<lambda>todo. \<not> Boolean (get_prop todo ''completed'')) ?all)"
    and R: "completionRate (getTodoStats c) =
      (if length ?all > 0 then fmul (fdiv (of_nat (length ?done)) (of_nat (length ?all))) 100
       else 0)"
    by (simp_all add: getTodoStats_def Let_def)
  have 1: "total (getTodoStats c) = (\<Sum>(k, b)\<leftarrow>c. length b)"
    unfolding T by (rule length_getAllTodos)
  have 3: "completed (getTodoStats c) + pending (getTodoStats c) = total (getTodoStats c)"
    unfolding T C P by (rule sum_length_filter_compl)
  have le: "length ?done \<le> length ?all"
    by (rule length_filter_le)
  have 4: "if total (getTodoStats c) = 0 then completionRate (getTodoStats c) = 0
    else completionRate (getTodoStats c) =
           fmul (fdiv (of_nat (completed (getTodoStats c))) (of_nat (total (getTodoStats c)))) 100 \<and>
         \<bar>completionRate (getTodoStats c) -
           100 * of_nat (completed (getTodoStats c)) / of_nat (total (getTodoStats c))\<bar>
           \<le> 1 / 2 ^ 45"
  proof (cases "length ?all = 0")
    case True
    then show ?thesis
      unfolding T C R by simp
  next
    case False
    then have pos: "0 < length ?all" by simp
    from percentage_near [OF pos le] pos show ?thesis
      unfolding T C R by simp
  qed
  from 1 C 3 4 show ?thesis
    by blast
qed

theorem getTodoStats_correct_witness:
  "total (getTodoStats stats_example) = 3 \<and> completed (getTodoStats stats_example) = 1 \<and>
   pending (getTodoStats stats_example) = 2 \<and>
   completionRate (getTodoStats stats_example) = 2345624805922133 / 70368744177664 \<and>
   completionRate (getTodoStats []) = 0"
proof -
  have r: "fmul (fdiv 1 3) 100 = 2345624805922133 / 70368744177664"
    by code_simp
  have a: "getAllTodos stats_example =
      [todo_of ''a'' ''Pay rent'' True ''2024-01-05'',
       todo_of ''b'' ''Call Ana'' False ''2024-01-05'',
       todo_of ''c'' ''Team meeting'' False ''2024-01-06'']"
    by code_simp
  have d: "filter (\<lambda>todo. Boolean (get_prop todo ''completed'')) (getAllTodos stats_example) =
      [todo_of ''a'' ''Pay rent'' True ''2024-01-05'']"
    by code_simp
  have t: "(\<Sum>(k, b)\<leftarrow>stats_example. length b) = 3"
    by (simp add: stats_example_def)
  from getTodoStats_correct [of stats_example] d t
  have 1: "total (getTodoStats stats_example) = 3"
    and 2: "completed (getTodoStats stats_example) = 1"
    and 3: "completed (getTodoStats stats_example) + pending (getTodoStats stats_example) = 3"
    and 4: "completionRate (getTodoStats stats_example) = fmul (fdiv 1 3) 100"
    by simp_all
  from getTodoStats_correct [of "[]"]
  have 5: "completionRate (getTodoStats []) = 0"
    by simp
  from 1 2 3 4 5 r show ?thesis
    by simp
qed

subsection \<open>Validation\<close>

lemma get_set_prop: "get_prop (set_prop t k v) k' = (if k' = k then v else get_prop t k')"
  by (simp add: get_prop_def set_prop_def update_conv')

lemma validateTodo_obj:
  "validateTodo (JObj t) =
     (if missing_fields t \<noteq> [] then Inl (MissingFields (missing_fields t))
      else (case invalid_fields t of [] \<Rightarrow> Inr True | f # _ \<Rightarrow> Inl (InvalidField f)))"
  by (simp add: validateTodo_def missing_fields_def invalid_fields_def checkedFields_def
      field_ok_def Let_def)

lemma violations_empty:
  "violations t = [] \<longleftrightarrow> missing_fields t = [] \<and> invalid_fields t = []"
  unfolding violations_def missing_fields_def invalid_fields_def checkedFields_def
    requiredFields_def
  by (auto simp: filter_empty_conv field_ok_def is_string_def get_prop_def has_prop_def
      split: option.splits)

text \<open>
  Claim C6, as the code has it. \<open>validateTodo\<close> returns true exactly when its argument is
  an object with no missing and no invalid field. Otherwise it raises one failure: that
  the value is not an object; or, when required fields are missing, the list of every
  missing required field, and nothing about invalid fields; or, when none is missing, the
  first invalid field only, in the order id, title, completed, dateKey, description.
\<close>

theorem validateTodo_reports:
  "validateTodo todo =
     (case todo of
        JObj t \<Rightarrow>
          if missing_fields t \<noteq> [] then Inl (MissingFields (missing_fields t))
          else (case invalid_fields t of [] \<Rightarrow> Inr True | f # _ \<Rightarrow> Inl (InvalidField f))
      | _ \<Rightarrow> Inl NotAnObject) \<and>
   (validateTodo todo = Inr True \<longleftrightarrow> (\<exists>t. todo = JObj t \<and> violations t = []))"
proof (cases todo)
  case (JObj t)
  then show ?thesis
    by (auto simp: validateTodo_obj violations_empty split: list.splits)
qed (simp_all add: validateTodo_def)

theorem validateTodo_reports_witness:
  "validateTodo (JObj rent) = Inr True \<and> violations rent = [] \<and>
   validateTodo (JObj [(''id'', JStr []), (''title'', JStr ''Pay rent'')]) =
     Inl (MissingFields [''completed'', ''dateKey'', ''createdAt'', ''updatedAt''])"
proof -
  have v: "violations rent = []"
    by code_simp
  have m: "missing_fields [(''id'', JStr []), (''title'', JStr ''Pay rent'')] =
      [''completed'', ''dateKey'', ''createdAt'', ''updatedAt'']"
    by code_simp
  from validateTodo_reports [of "JObj rent"] v
  have a: "validateTodo (JObj rent) = Inr True"
    by blast
  from validateTodo_reports [of "JObj [(''id'', JStr []), (''title'', JStr ''Pay rent'')]"] m
  have b: "validateTodo (JObj [(''id'', JStr []), (''title'', JStr ''Pay rent'')]) =
      Inl (MissingFields [''completed'', ''dateKey'', ''createdAt'', ''updatedAt''])"
    by simp
  from a v b show ?thesis
    by blast
qed

text \<open>
  Claim C6, as the spec states it, fails: an item whose id is empty and whose title is
  blank violates two fields, and the failure names the id only.
\<close>

theorem validateTodo_first_only:
  "validateTodo (JObj bad_todo) = Inl (InvalidField ''id'') \<and>
   violations bad_todo = [''id'', ''title''] \<and>
   \<not> set (violations bad_todo) \<subseteq> set (reported (InvalidField ''id''))"
  by code_simp

subsection \<open>Updating an item\<close>

lemma updateTodo_isl:
  "isl (updateTodo now existing upd) =
   isl (updateTodo now existing (upd\<lparr>description_upd := d, completed_upd := c\<rparr>))"
  by (auto simp: updateTodo_def update_title_def update_date_def
      split: jsval.splits sum.splits arg.splits)

text \<open>
  Claim C7, as the code has it. A \<open>completed\<close> or \<open>description\<close> of the patch never makes
  \<open>updateTodo\<close> fail: whether it fails is the same for any other values of these two
  fields. When it succeeds, a \<open>completed\<close> that is present is stored as its truth value
  \<open>Boolean(completed)\<close>, and a \<open>description\<close> that is present is stored trimmed when it
  is a string and as the empty string when it is not.
\<close>

theorem updateTodo_coerces:
  "isl (updateTodo now existing upd) =
     isl (updateTodo now existing (upd\<lparr>description_upd := d, completed_upd := c\<rparr>)) \<and>
   (\<forall>t t'. existing = JObj t \<and> updateTodo now existing upd = Inr t' \<longrightarrow>
      get_prop t' ''completed'' =
        coerced_completed (get_prop t ''completed'') (completed_upd upd) \<and>
      get_prop t' ''description'' =
        coerced_description (get_prop t ''description'') (description_upd upd))"
proof (intro conjI allI impI)
  show "isl (updateTodo now existing upd) =
     isl (updateTodo now existing (upd\<lparr>description_upd := d, completed_upd := c\<rparr>))"
    by (rule updateTodo_isl)
next
  fix t t'
  assume a: "existing = JObj t \<and> updateTodo now existing upd = Inr t'"
  then show "get_prop t' ''completed'' =
      coerced_completed (get_prop t ''completed'') (completed_upd upd)"
    by (auto simp: updateTodo_def update_title_def update_date_def update_completed_def
        update_description_def get_set_prop coerced_completed_def
        split: jsval.splits sum.splits arg.splits if_splits)
  from a show "get_prop t' ''description'' =
      coerced_description (get_prop t ''description'') (description_upd upd)"
    by (auto simp: updateTodo_def update_title_def update_date_def update_completed_def
        update_description_def get_set_prop coerced_description_def
        split: jsval.splits sum.splits arg.splits if_splits)
qed

theorem updateTodo_coerces_witness:
  "updateTodo later (JObj rent) coercing_patch = Inr rent_coerced \<and>
   get_prop rent_coerced ''completed'' = JBool True \<and>
   get_prop rent_coerced ''description'' = JStr []"
proof -
  have r: "updateTodo later (JObj rent) coercing_patch = Inr rent_coerced"
    by code_simp
  have "coerced_completed (get_prop rent ''completed'') (completed_upd coercing_patch) = JBool True"
    by code_simp
  moreover have
    "coerced_description (get_prop rent ''description'') (description_upd coercing_patch) = JStr []"
    by code_simp
  ultimately show ?thesis
    using r updateTodo_coerces [of later "JObj rent" coercing_patch JUndefined JUndefined]
    by simp
qed

text \<open>
  Claim C7, as the spec states it, fails: a patch whose \<open>completed\<close> is the string
  \<open>no\<close> and whose \<open>description\<close> is the number 5 is accepted, and the item stored has
  \<open>completed = true\<close> and an empty description.
\<close>

theorem updateTodo_coercion_example:
  "updateTodo later (JObj rent) coercing_patch = Inr rent_coerced"
  by code_simp

subsection \<open>Searching\<close>

lemma lower_space: "is_space c \<Longrightarrow> lower_char c = c"
  by (auto simp: is_space_def lower_char_def Let_def)

lemma toLowerCase_spaces: "\<forall>c\<in>set s. is_space c \<Longrightarrow> toLowerCase s = s"
  by (induction s) (auto simp: toLowerCase_def lower_space)

lemma trim_spaces: "\<forall>c\<in>set s. is_space c \<Longrightarrow> trim s = []"
proof -
  assume a: "\<forall>c\<in>set s. is_space c"
  have d: "dropWhile is_space s = []"
    using a by (induction s) simp_all
  show ?thesis
    unfolding trim_def d by simp
qed

lemma str_includes_empty: "str_includes s []"
  by (cases s) (simp_all add: starts_with_def)

lemma filter_err_all: "\<forall>x\<in>set xs. P x = Inr True \<Longrightarrow> filter_err P xs = Inr xs"
  by (induction xs) auto

lemma matches_empty: "is_string (get_prop todo ''title'') \<Longrightarrow> matches [] todo = Inr True"
  by (auto simp: matches_def lower_of_def is_string_def str_includes_empty split: jsval.splits)

lemma search_loop_empty:
  "\<forall>todo\<in>set (getAllTodos c). is_string (get_prop todo ''title'') \<Longrightarrow>
   search_loop [] c = Inr (tagged c)"
proof (induction c)
  case Nil
  then show ?case by (simp add: tagged_def)
next
  case (Cons p c)
  obtain k b where p: "p = (k, b)" by (cases p)
  from Cons.prems have "\<forall>todo\<in>set b. matches [] todo = Inr True"
    by (simp add: p getAllTodos_def matches_empty)
  then have "filter_err (matches []) b = Inr b"
    by (rule filter_err_all)
  moreover from Cons have "search_loop [] c = Inr (tagged c)"
    by (simp add: getAllTodos_def)
  ultimately show ?case
    by (simp add: p tagged_def)
qed

text \<open>
  Claim C10. For every collection whose items have a string title, \<open>searchTodos\<close> with a
  term that is a non-empty string of whitespace only returns every item of the
  collection, bucket after bucket, each tagged with the key of its bucket; the guard
  rejects the empty string, and the whitespace term is trimmed to the empty string, which
  every title includes.
\<close>

theorem searchTodos_whitespace:
  assumes "s \<noteq> []" and "\<forall>c\<in>set s. is_space c"
    and "\<forall>todo\<in>set (getAllTodos c). is_string (get_prop todo ''title'')"
  shows "searchTodos c (JStr s) = Inr (tagged c) \<and>
     length (tagged c) = length (getAllTodos c) \<and>
     searchTodos c (JStr []) = Inr []"
proof -
  have "length (tagged c) = length (getAllTodos c)"
    by (induction c) (auto simp: tagged_def getAllTodos_def)
  with assms show ?thesis
    by (simp add: searchTodos_def falsy_def toLowerCase_spaces trim_spaces search_loop_empty)
qed

theorem searchTodos_whitespace_witness:
  "searchTodos stats_example (JStr ''  '') =
     Inr [todo_of ''a'' ''Pay rent'' True ''2024-01-05'',
          todo_of ''b'' ''Call Ana'' False ''2024-01-05'',
          todo_of ''c'' ''Team meeting'' False ''2024-01-06'']"
proof -
  have 1: "''  '' \<noteq> []"
    by simp
  have 2: "\<forall>c\<in>set ''  ''. is_space c"
    by (simp add: is_space_def)
  have 3: "\<forall>todo\<in>set (getAllTodos stats_example). is_string (get_prop todo ''title'')"
    by code_simp
  have 4: "tagged stats_example =
      [todo_of ''a'' ''Pay rent'' True ''2024-01-05'',
       todo_of ''b'' ''Call Ana'' False ''2024-01-05'',
       todo_of ''c'' ''Team meeting'' False ''2024-01-06'']"
    by code_simp
  from searchTodos_whitespace [OF 1 2 3] 4 show ?thesis
    by simp
qed

subsection \<open>Buckets\<close>

lemma findIndex_lower: "findIndex P xs \<ge> - 1"
  by (induction xs) (auto simp: Let_def)

lemma findIndex_found: "findIndex P xs \<noteq> - 1 \<longleftrightarrow> (\<exists>x\<in>set xs. P x)"
proof (induction xs)
  case Nil
  show ?case by simp
next
  case (Cons x xs)
  have "findIndex P xs + 1 \<noteq> - 1"
    using findIndex_lower [of P xs] by linarith
  with Cons show ?case
    by (auto simp: Let_def)
qed

lemma bucket_update: "bucket (AList.update k v c) k' = (if k' = k then v else bucket c k')"
  by (simp add: bucket_def update_conv')

lemma bucket_delete: "bucket (AList.delete k c) k' = (if k' = k then [] else bucket c k')"
  by (simp add: bucket_def delete_conv')

subsection \<open>Inserting\<close>

text \<open>
  Claim C1, as the code has it. For every collection and every valid item,
  \<open>addTodoToCollection\<close> fails with the duplicate-id error exactly when an item with the
  same id is already in the bucket of the item's own day; an item with that id under
  another day key does not make it fail. Otherwise it succeeds: the item is appended to
  the end of its day's sequence and every other bucket is unchanged.
\<close>

theorem addTodoToCollection_per_day:
  assumes "validateTodo (JObj t) = Inr True"
    and "get_prop t ''id'' = JStr i" and "get_prop t ''dateKey'' = JStr day"
  shows "addTodoToCollection c (JObj t) =
     (if \<exists>t'\<in>set (bucket c day). has_id i t' then Inl (AlreadyExists (JStr i) day)
      else Inr (AList.update day (bucket c day @ [t]) c)) \<and>
     (\<forall>k. bucket (AList.update day (bucket c day @ [t]) c) k =
        (if k = day then bucket c day @ [t] else bucket c k))"
  using assms
  by (simp add: addTodoToCollection_def Let_def findIndex_found has_id_def bucket_update)

theorem addTodoToCollection_per_day_witness:
  "addTodoToCollection rent_day (JObj rent) = Inl (AlreadyExists (JStr ''a'') ''2024-01-05'') \<and>
   addTodoToCollection rent_day (JObj call_ana) = Inr [(''2024-01-05'', [rent, call_ana])]"
proof -
  have 1: "validateTodo (JObj rent) = Inr True"
    by code_simp
  have 2: "get_prop rent ''id'' = JStr ''a''"
    by code_simp
  have 3: "get_prop rent ''dateKey'' = JStr ''2024-01-05''"
    by code_simp
  have 4: "\<exists>t'\<in>set (bucket rent_day ''2024-01-05''). has_id ''a'' t'"
    by code_simp
  have 5: "validateTodo (JObj call_ana) = Inr True"
    by code_simp
  have 6: "get_prop call_ana ''id'' = JStr ''b''"
    by code_simp
  have 7: "get_prop call_ana ''dateKey'' = JStr ''2024-01-05''"
    by code_simp
  have 8: "\<not> (\<exists>t'\<in>set (bucket rent_day ''2024-01-05''). has_id ''b'' t')"
    by code_simp
  have 9: "AList.update ''2024-01-05'' (bucket rent_day ''2024-01-05'' @ [call_ana]) rent_day =
      [(''2024-01-05'', [rent, call_ana])]"
    by code_simp
  from addTodoToCollection_per_day [OF 1 2 3, of rent_day] 4
    addTodoToCollection_per_day [OF 5 6 7, of rent_day] 8 9
  show ?thesis
    by simp
qed

text \<open>
  Claim C1, as the spec states it, fails: with an item of id \<open>a\<close> under 2024-01-05,
  inserting a valid item of the same id for 2024-01-06 succeeds, and the collection then
  holds the id under both days.
\<close>

theorem addTodoToCollection_other_day:
  "validateTodo (JObj rent_again) = Inr True \<and>
   getAllTodos rent_day = [rent] \<and>
   get_prop rent ''id'' = get_prop rent_again ''id'' \<and>
   addTodoToCollection rent_day (JObj rent_again) =
     Inr [(''2024-01-05'', [rent]), (''2024-01-06'', [rent_again])]"
  by code_simp

subsection \<open>Empty buckets\<close>

lemma no_empty_update:
  "no_empty_buckets c \<Longrightarrow> v \<noteq> [] \<Longrightarrow> no_empty_buckets (AList.update k v c)"
  by (induction c) (auto simp: no_empty_buckets_def)

lemma no_empty_delete: "no_empty_buckets c \<Longrightarrow> no_empty_buckets (AList.delete k c)"
  by (auto simp: no_empty_buckets_def AList.delete_eq)

lemma no_empty_remove_from:
  "no_empty_buckets c \<Longrightarrow> no_empty_buckets (remove_from c k todos todoId)"
  by (simp add: remove_from_def Let_def no_empty_update no_empty_delete)

lemma no_empty_add:
  "no_empty_buckets c \<Longrightarrow> addTodoToCollection c todo = Inr c' \<Longrightarrow> no_empty_buckets c'"
  by (auto simp: addTodoToCollection_def Let_def no_empty_update split: sum.splits if_splits)

lemma updateTodoInCollection_Inr:
  assumes "updateTodoInCollection now c todoId upd = Inr c'"
  shows "\<exists>dateKey todos i updated.
     find_todo todoId c = Some (dateKey, todos, i) \<and>
     updateTodo now (JObj (todos ! nat i)) upd = Inr updated \<and>
     c' = AList.update (to_key (get_prop updated ''dateKey''))
            (bucket (remove_from c dateKey todos todoId) (to_key (get_prop updated ''dateKey'')) @ [updated])
            (remove_from c dateKey todos todoId)"
proof (cases "find_todo todoId c")
  case None
  with assms show ?thesis by (simp add: updateTodoInCollection_def)
next
  case (Some found)
  obtain dateKey todos i where f: "found = (dateKey, todos, i)" by (cases found)
  show ?thesis
  proof (cases "updateTodo now (JObj (todos ! nat i)) upd")
    case (Inl e)
    with assms Some f show ?thesis by (simp add: updateTodoInCollection_def)
  next
    case (Inr updated)
    with assms Some f show ?thesis by (simp add: updateTodoInCollection_def Let_def)
  qed
qed

lemma no_empty_updateTodoInCollection:
  assumes "no_empty_buckets c" and "updateTodoInCollection now c todoId upd = Inr c'"
  shows "no_empty_buckets c'"
proof -
  from updateTodoInCollection_Inr [OF assms(2)] obtain dateKey todos i updated where
    "c' = AList.update (to_key (get_prop updated ''dateKey''))
            (bucket (remove_from c dateKey todos todoId) (to_key (get_prop updated ''dateKey'')) @ [updated])
            (remove_from c dateKey todos todoId)"
    by blast
  with assms(1) show ?thesis
    by (simp add: no_empty_update no_empty_remove_from)
qed

lemma no_empty_removeTodoFromCollection:
  assumes "no_empty_buckets c" and "removeTodoFromCollection c todoId = Inr c'"
  shows "no_empty_buckets c'"
proof (cases "find_todo todoId c")
  case None
  with assms show ?thesis by (simp add: removeTodoFromCollection_def)
next
  case (Some found)
  obtain dateKey todos i where "found = (dateKey, todos, i)" by (cases found)
  with assms Some show ?thesis
    by (auto simp: removeTodoFromCollection_def no_empty_remove_from)
qed

lemma no_empty_step:
  assumes "no_empty_buckets c"
  shows "no_empty_buckets (step now c op)"
proof (cases "apply_operation now c op")
  case (Inl e)
  with assms show ?thesis by (simp add: step_def)
next
  case (Inr c')
  with assms have "no_empty_buckets c'"
    by (cases op)
      (auto intro: no_empty_add no_empty_updateTodoInCollection no_empty_removeTodoFromCollection)
  with Inr show ?thesis by (simp add: step_def)
qed

lemma no_empty_run: "no_empty_buckets c \<Longrightarrow> no_empty_buckets (run now c ops)"
  unfolding run_def by (induction ops arbitrary: c) (simp_all add: no_empty_step)

lemma bucket_empty_iff:
  "no_empty_buckets c \<Longrightarrow> bucket c k = [] \<longleftrightarrow> k \<notin> fst ` set c"
proof -
  assume ne: "no_empty_buckets c"
  show ?thesis
  proof (cases "map_of c k")
    case None
    then show ?thesis by (simp add: bucket_def map_of_eq_None_iff [symmetric])
  next
    case (Some b)
    then have "(k, b) \<in> set c" by (rule map_of_SomeD)
    with ne have "b \<noteq> []" "k \<in> fst ` set c" by (auto simp: no_empty_buckets_def intro: rev_image_eqI)
    with Some show ?thesis by (simp add: bucket_def)
  qed
qed

text \<open>
  Claim C5. Starting from a collection with no empty bucket, after every sequence of
  inserts, removals and updates (those that move an item to another day among them, and
  those that fail, which leave the collection as it was) every date key of the collection
  maps to a non-empty sequence; \<open>getTodosForDate\<close> does not fail on a day string or a
  date, and it returns the empty sequence exactly for the days whose key is absent.
\<close>

theorem no_empty_buckets_kept:
  assumes "no_empty_buckets c"
  shows "no_empty_buckets (run now c ops) \<and>
     (\<forall>k. getTodosForDate (run now c ops) (Val (JStr k)) = Inr (bucket (run now c ops) k) \<and>
          (bucket (run now c ops) k = [] \<longleftrightarrow> k \<notin> fst ` set (run now c ops))) \<and>
     (\<forall>d. getTodosForDate (run now c ops) (DateObj d) = Inr (bucket (run now c ops) (formatDateKey d)))"
  using no_empty_run [OF assms, of now ops] by (simp add: bucket_empty_iff)

theorem no_empty_buckets_kept_witness:
  "run later [] busy_week = [(''2024-01-06'', [ana_moved])] \<and>
   getTodosForDate (run later [] busy_week) (Val (JStr ''2024-01-05'')) = Inr []"
proof -
  have 0: "no_empty_buckets []"
    by (simp add: no_empty_buckets_def)
  have s1: "step later [] (Insert (JObj rent)) = rent_day"
    by code_simp
  have s2: "step later rent_day (Insert (JObj call_ana)) = [(''2024-01-05'', [rent, call_ana])]"
    by code_simp
  have s3: "step later [(''2024-01-05'', [rent, call_ana])] (Remove ''a'') = [(''2024-01-05'', [call_ana])]"
    by code_simp
  have s4: "step later [(''2024-01-05'', [call_ana])] (Remove ''zzz'') = [(''2024-01-05'', [call_ana])]"
    by code_simp
  have s5: "step later [(''2024-01-05'', [call_ana])] (Update ''b'' move_to_6th) =
      [(''2024-01-06'', [ana_moved])]"
    by code_simp
  have 1: "run later [] busy_week = [(''2024-01-06'', [ana_moved])]"
    by (simp add: run_def busy_week_def s1 s2 s3 s4 s5)
  have 2: "''2024-01-05'' \<notin> fst ` set (run later [] busy_week)"
    unfolding 1 by simp
  from no_empty_buckets_kept [OF 0, of later busy_week] 1 2 show ?thesis
    by simp
qed

subsection \<open>Updating in a collection\<close>

lemma findIndex_nth:
  "findIndex P xs \<noteq> - 1 \<Longrightarrow>
   0 \<le> findIndex P xs \<and> nat (findIndex P xs) < length xs \<and> P (xs ! nat (findIndex P xs))"
proof (induction xs)
  case Nil
  then show ?case by simp
next
  case (Cons x xs)
  show ?case
  proof (cases "P x")
    case True
    then show ?thesis by simp
  next
    case False
    with Cons.prems have ne: "findIndex P xs \<noteq> - 1"
      by (auto simp: Let_def split: if_splits)
    from Cons.IH [OF ne] False ne show ?thesis
      by (simp add: Let_def nat_add_distrib)
  qed
qed

lemma find_todo_Some:
  "find_todo todoId c = Some (k, todos, i) \<Longrightarrow>
   (k, todos) \<in> set c \<and> i = findIndex (has_id todoId) todos \<and> i \<noteq> - 1"
proof (induction c)
  case Nil
  then show ?case by simp
next
  case (Cons p c)
  obtain k' b where p: "p = (k', b)" by (cases p)
  show ?case
  proof (cases "findIndex (has_id todoId) b \<noteq> - 1")
    case True
    with Cons.prems p show ?thesis by (auto simp: Let_def)
  next
    case False
    with Cons.prems p have "find_todo todoId c = Some (k, todos, i)"
      by (simp add: Let_def)
    from Cons.IH [OF this] show ?thesis by simp
  qed
qed

lemma find_todo_None: "find_todo todoId c = None \<longleftrightarrow> \<not> present todoId c"
proof (induction c)
  case Nil
  show ?case by (simp add: present_def getAllTodos_def)
next
  case (Cons p c)
  obtain k b where p: "p = (k, b)" by (cases p)
  have "present todoId (p # c) \<longleftrightarrow> (\<exists>t\<in>set b. has_id todoId t) \<or> present todoId c"
    by (auto simp: present_def getAllTodos_def p)
  with Cons show ?case
    by (simp add: p Let_def findIndex_found)
qed

lemma find_todo_bucket:
  assumes "distinct (map fst c)" and "find_todo todoId c = Some (k, todos, i)"
  shows "bucket c k = todos \<and> 0 \<le> i \<and> nat i < length todos \<and> has_id todoId (todos ! nat i)"
proof -
  from find_todo_Some [OF assms(2)] have m: "(k, todos) \<in> set c"
    and i: "i = findIndex (has_id todoId) todos" "i \<noteq> - 1"
    by simp_all
  from assms(1) m have "map_of c k = Some todos"
    by (rule map_of_is_SomeI)
  then have "bucket c k = todos"
    by (simp add: bucket_def)
  with findIndex_nth [of "has_id todoId" todos] i show ?thesis
    by simp
qed

lemma updateTodo_id:
  "updateTodo now (JObj t) upd = Inr t' \<Longrightarrow> get_prop t' ''id'' = get_prop t ''id''"
  by (auto simp: updateTodo_def update_title_def update_date_def update_completed_def
      update_description_def get_set_prop
      split: jsval.splits sum.splits arg.splits if_splits)

lemma updateTodo_dateKey:
  "updateTodo now (JObj t) upd = Inr t' \<Longrightarrow>
   get_prop t' ''dateKey'' =
     (case date_upd upd of DateObj d \<Rightarrow> JStr (formatDateKey d) | Val v \<Rightarrow> get_prop t ''dateKey'')"
  by (auto simp: updateTodo_def update_title_def update_date_def update_completed_def
      update_description_def get_set_prop
      split: jsval.splits sum.splits arg.splits if_splits)

lemma updateTodo_total:
  "\<not> falsy (get_prop t ''id'') \<Longrightarrow> patch_ok upd \<Longrightarrow> \<exists>t'. updateTodo now (JObj t) upd = Inr t'"
  by (auto simp: updateTodo_def update_title_def update_date_def patch_ok_def nonblank_string_def
      split: jsval.splits sum.splits arg.splits if_splits)

lemma count_id_Cons: "count_id i ((k, b) # c) = count_in i b + count_id i c"
  by (simp add: count_id_def count_in_def getAllTodos_def)

lemma count_in_bucket_le: "count_in i (bucket c k) \<le> count_id i c"
proof (induction c)
  case Nil
  show ?case by (simp add: bucket_def count_in_def)
next
  case (Cons p c)
  obtain k' b where p: "p = (k', b)" by (cases p)
  from Cons show ?case
    by (auto simp: p count_id_Cons bucket_def)
qed

lemma count_id_delete:
  "distinct (map fst c) \<Longrightarrow> count_id i (AList.delete k c) + count_in i (bucket c k) = count_id i c"
proof (induction c)
  case Nil
  show ?case by (simp add: bucket_def count_in_def count_id_def getAllTodos_def)
next
  case (Cons p c)
  obtain k' b where p: "p = (k', b)" by (cases p)
  show ?case
  proof (cases "k' = k")
    case True
    with Cons.prems p have "k \<notin> fst ` set c" by auto
    then have "AList.delete k c = c" by simp
    with True show ?thesis
      by (simp add: p count_id_Cons bucket_def)
  next
    case False
    with Cons p show ?thesis
      by (simp add: count_id_Cons bucket_def)
  qed
qed

lemma count_id_update:
  "distinct (map fst c) \<Longrightarrow>
   count_id i (AList.update k v c) + count_in i (bucket c k) = count_id i c + count_in i v"
proof (induction c)
  case Nil
  show ?case by (simp add: bucket_def count_in_def count_id_def getAllTodos_def)
next
  case (Cons p c)
  obtain k' b where p: "p = (k', b)" by (cases p)
  show ?case
  proof (cases "k' = k")
    case True
    then show ?thesis
      by (simp add: p count_id_Cons bucket_def)
  next
    case False
    with Cons p show ?thesis
      by (simp add: count_id_Cons bucket_def)
  qed
qed

lemma count_in_two_buckets:
  assumes "distinct (map fst c)" and "k \<noteq> k'"
  shows "count_in i (bucket c k) + count_in i (bucket c k') \<le> count_id i c"
proof -
  have "count_in i (bucket (AList.delete k c) k') \<le> count_id i (AList.delete k c)"
    by (rule count_in_bucket_le)
  with assms(2) have "count_in i (bucket c k') \<le> count_id i (AList.delete k c)"
    by (simp add: bucket_delete)
  with count_id_delete [OF assms(1), of i k] show ?thesis
    by linarith
qed

lemma count_in_removed: "count_in i (filter (\<lambda>t. \<not> has_id i t) todos) = 0"
  by (simp add: count_in_def)

lemma bucket_remove_from:
  "bucket (remove_from c k todos i) k' =
     (if k' = k then filter (\<lambda>t. \<not> has_id i t) todos else bucket c k')"
  by (simp add: remove_from_def Let_def bucket_update bucket_delete)

lemma distinct_remove_from:
  "distinct (map fst c) \<Longrightarrow> distinct (map fst (remove_from c k todos i))"
  by (simp add: remove_from_def Let_def distinct_update distinct_delete)

lemma count_id_remove_from:
  assumes "distinct (map fst c)" and "bucket c k = todos"
  shows "count_id i (remove_from c k todos i) + count_in i todos = count_id i c"
proof (cases "filter (\<lambda>t. \<not> has_id i t) todos = []")
  case True
  with count_id_delete [OF assms(1), of i k] assms(2) show ?thesis
    by (simp add: remove_from_def)
next
  case False
  with count_id_update [OF assms(1), of i k "filter (\<lambda>t. \<not> has_id i t) todos"] assms(2)
  show ?thesis
    by (simp add: remove_from_def count_in_removed)
qed

lemma keys_remove_from:
  "filter (\<lambda>t. \<not> has_id i t) todos = [] \<Longrightarrow> k \<notin> fst ` set (remove_from c k todos i)"
  by (simp add: remove_from_def delete_notin_dom)

lemma present_count: "present i c \<longleftrightarrow> 0 < count_id i c"
  by (auto simp: present_def count_id_def count_in_def filter_empty_conv)

lemma in_bucket_count: "t \<in> set b \<Longrightarrow> has_id i t \<Longrightarrow> 0 < count_in i b"
  by (auto simp: count_in_def filter_empty_conv)

lemma updateTodoInCollection_found:
  assumes "find_todo todoId c = Some (dateKey, todos, i)"
    and "updateTodo now (JObj (todos ! nat i)) upd = Inr updated"
  shows "updateTodoInCollection now c todoId upd =
     Inr (AList.update (to_key (get_prop updated ''dateKey''))
            (bucket (remove_from c dateKey todos todoId) (to_key (get_prop updated ''dateKey'')) @ [updated])
            (remove_from c dateKey todos todoId))"
  using assms by (simp add: updateTodoInCollection_def Let_def)

lemma has_id_truthy: "has_id todoId t \<Longrightarrow> todoId \<noteq> [] \<Longrightarrow> \<not> falsy (get_prop t ''id'')"
  by (simp add: has_id_def falsy_def)

text \<open>
  Claim C9. For every collection and every id present in it, whenever the patch is one
  that \<open>updateTodo\<close> accepts, \<open>updateTodoInCollection\<close> succeeds, removes the item from
  its bucket and appends the updated item at the end of the sequence of its target day,
  also when the patch has no date, in which case the target day is the item's own day:
  the bucket is then the old one without the item, followed by the updated item.
\<close>

theorem updateTodoInCollection_appends:
  assumes "distinct (map fst c)" and "present todoId c" and "todoId \<noteq> []" and "patch_ok upd"
  shows "\<exists>c' dateKey old updated.
     updateTodoInCollection now c todoId upd = Inr c' \<and>
     old \<in> set (bucket c dateKey) \<and> has_id todoId old \<and>
     updateTodo now (JObj old) upd = Inr updated \<and> has_id todoId updated \<and>
     (date_upd upd = Val JUndefined \<longrightarrow> get_prop updated ''dateKey'' = get_prop old ''dateKey'') \<and>
     bucket c' (to_key (get_prop updated ''dateKey'')) =
       (if to_key (get_prop updated ''dateKey'') = dateKey
        then filter (\<lambda>t. \<not> has_id todoId t) (bucket c dateKey)
        else bucket c (to_key (get_prop updated ''dateKey''))) @ [updated]"
proof -
  from assms(2) obtain found where "find_todo todoId c = Some found"
    using find_todo_None [of todoId c] by (cases "find_todo todoId c") auto
  then obtain dateKey todos i where f: "find_todo todoId c = Some (dateKey, todos, i)"
    by (cases found) auto
  from find_todo_bucket [OF assms(1) f] have b: "bucket c dateKey = todos"
    and i: "nat i < length todos" and h: "has_id todoId (todos ! nat i)"
    by simp_all
  let ?old = "todos ! nat i"
  from has_id_truthy [OF h assms(3)] assms(4) obtain updated where
    u: "updateTodo now (JObj ?old) upd = Inr updated"
    using updateTodo_total by blast
  let ?k = "to_key (get_prop updated ''dateKey'')"
  let ?c1 = "remove_from c dateKey todos todoId"
  let ?c' = "AList.update ?k (bucket ?c1 ?k @ [updated]) ?c1"
  have r: "updateTodoInCollection now c todoId upd = Inr ?c'"
    by (rule updateTodoInCollection_found [OF f u])
  have m: "?old \<in> set (bucket c dateKey)"
    using b i by simp
  have hu: "has_id todoId updated"
    using updateTodo_id [OF u] h by (simp add: has_id_def)
  have dk: "date_upd upd = Val JUndefined \<longrightarrow> get_prop updated ''dateKey'' = get_prop ?old ''dateKey''"
    using updateTodo_dateKey [OF u] by simp
  have bk: "bucket ?c' ?k =
      (if ?k = dateKey then filter (\<lambda>t. \<not> has_id todoId t) (bucket c dateKey) else bucket c ?k) @ [updated]"
    by (simp add: bucket_update bucket_remove_from b)
  from r m h u hu dk bk show ?thesis
    by blast
qed

theorem updateTodoInCollection_appends_witness:
  "updateTodoInCollection later rent_and_ana ''a'' mark_done =
     Inr [(''2024-01-05'', [call_ana, rent_done])]"
proof -
  have 1: "distinct (map fst rent_and_ana)"
    by (simp add: rent_and_ana_def)
  have 2: "present ''a'' rent_and_ana"
    by code_simp
  have 3: "''a'' \<noteq> []"
    by simp
  have 4: "patch_ok mark_done"
    by code_simp
  from updateTodoInCollection_appends [OF 1 2 3 4, of later]
  obtain c' where "updateTodoInCollection later rent_and_ana ''a'' mark_done = Inr c'"
    by blast
  moreover have "updateTodoInCollection later rent_and_ana ''a'' mark_done =
      Inr [(''2024-01-05'', [call_ana, rent_done])]"
    by code_simp
  ultimately show ?thesis
    by simp
qed

text \<open>
  Claim C2, as the code has it. For every collection that holds the id exactly once,
  under the day \<open>dateKey\<close>, an update that \<open>updateTodo\<close> accepts and whose patch has a
  date of another day relocates the item: afterwards the collection holds the id exactly
  once, the updated item is appended to the bucket of the new day, no other bucket holds
  the id, the old bucket is the old one without the item, its key is gone when that
  leaves it empty, and every other bucket is unchanged.
\<close>

theorem updateTodoInCollection_moves:
  assumes "distinct (map fst c)" and "count_id todoId c = 1" and "todoId \<noteq> []"
    and "patch_ok upd" and "date_upd upd = DateObj d"
    and "0 < count_in todoId (bucket c dateKey)" and "formatDateKey d \<noteq> dateKey"
  shows "\<exists>c' updated.
     updateTodoInCollection now c todoId upd = Inr c' \<and>
     count_id todoId c' = 1 \<and>
     has_id todoId updated \<and> get_prop updated ''dateKey'' = JStr (formatDateKey d) \<and>
     bucket c' (formatDateKey d) = bucket c (formatDateKey d) @ [updated] \<and>
     bucket c' dateKey = filter (\<lambda>t. \<not> has_id todoId t) (bucket c dateKey) \<and>
     (\<forall>k. k \<noteq> formatDateKey d \<longrightarrow> count_in todoId (bucket c' k) = 0) \<and>
     (\<forall>k. k \<noteq> formatDateKey d \<and> k \<noteq> dateKey \<longrightarrow> bucket c' k = bucket c k) \<and>
     (filter (\<lambda>t. \<not> has_id todoId t) (bucket c dateKey) = [] \<longrightarrow> dateKey \<notin> fst ` set c')"
proof -
  have "present todoId c"
    using assms(2) by (simp add: present_count)
  then obtain found where "find_todo todoId c = Some found"
    using find_todo_None [of todoId c] by (cases "find_todo todoId c") auto
  then obtain k0 todos i where f: "find_todo todoId c = Some (k0, todos, i)"
    by (cases found) auto
  from find_todo_bucket [OF assms(1) f] have b0: "bucket c k0 = todos"
    and i: "nat i < length todos" and h: "has_id todoId (todos ! nat i)"
    by simp_all
  have pos0: "0 < count_in todoId (bucket c k0)"
    using in_bucket_count [of "todos ! nat i" todos todoId] i h b0 by simp
  have k0: "k0 = dateKey"
  proof (rule ccontr)
    assume "k0 \<noteq> dateKey"
    from count_in_two_buckets [OF assms(1) this, of todoId] pos0 assms(6) assms(2)
    show False by linarith
  qed
  have b: "bucket c dateKey = todos"
    using b0 k0 by simp
  have one: "count_in todoId todos = 1"
    using count_in_bucket_le [of todoId c dateKey] assms(2) assms(6) b by auto
  from has_id_truthy [OF h assms(3)] assms(4) obtain updated where
    u: "updateTodo now (JObj (todos ! nat i)) upd = Inr updated"
    using updateTodo_total by blast
  have dk: "get_prop updated ''dateKey'' = JStr (formatDateKey d)"
    using updateTodo_dateKey [OF u] assms(5) by simp
  have hu: "has_id todoId updated"
    using updateTodo_id [OF u] h by (simp add: has_id_def)
  let ?new = "formatDateKey d"
  let ?c1 = "remove_from c dateKey todos todoId"
  let ?c' = "AList.update ?new (bucket ?c1 ?new @ [updated]) ?c1"
  have r: "updateTodoInCollection now c todoId upd = Inr ?c'"
    using updateTodoInCollection_found [OF f u] dk k0 by simp
  have d1: "distinct (map fst ?c1)"
    by (rule distinct_remove_from [OF assms(1)])
  have d': "distinct (map fst ?c')"
    by (rule distinct_update [OF d1])
  have b1: "bucket ?c1 ?new = bucket c ?new"
    using assms(7) by (simp add: bucket_remove_from)
  have c1: "count_id todoId ?c1 = 0"
    using count_id_remove_from [OF assms(1) b, of todoId] one assms(2) by simp
  have z: "count_in todoId (bucket c ?new) = 0"
    using count_in_bucket_le [of todoId ?c1 ?new] c1 b1 by simp
  have cu: "count_in todoId (bucket c ?new @ [updated]) = 1"
    using z hu by (simp add: count_in_def)
  have cnt: "count_id todoId ?c' = 1"
    using count_id_update [OF d1, of todoId ?new "bucket ?c1 ?new @ [updated]"] c1 b1 z cu
    by simp
  have bn: "bucket ?c' ?new = bucket c ?new @ [updated]"
    by (simp add: bucket_update b1)
  have bo: "bucket ?c' dateKey = filter (\<lambda>t. \<not> has_id todoId t) (bucket c dateKey)"
    using assms(7) by (simp add: bucket_update bucket_remove_from b)
  have only: "\<forall>k. k \<noteq> ?new \<longrightarrow> count_in todoId (bucket ?c' k) = 0"
  proof (intro allI impI)
    fix k assume "k \<noteq> ?new"
    from count_in_two_buckets [OF d' this, of todoId] cnt bn cu
    show "count_in todoId (bucket ?c' k) = 0" by simp
  qed
  have others: "\<forall>k. k \<noteq> ?new \<and> k \<noteq> dateKey \<longrightarrow> bucket ?c' k = bucket c k"
    by (simp add: bucket_update bucket_remove_from)
  have gone: "filter (\<lambda>t. \<not> has_id todoId t) (bucket c dateKey) = [] \<longrightarrow> dateKey \<notin> fst ` set ?c'"
  proof
    assume "filter (\<lambda>t. \<not> has_id todoId t) (bucket c dateKey) = []"
    then have "dateKey \<notin> fst ` set ?c1"
      using keys_remove_from [of todoId todos dateKey c] b by simp
    with assms(7) show "dateKey \<notin> fst ` set ?c'"
      by (simp add: dom_update)
  qed
  from r cnt hu dk bn bo only others gone show ?thesis
    by blast
qed

theorem updateTodoInCollection_moves_witness:
  "updateTodoInCollection later two_days ''a'' move_to_6th =
     Inr [(''2024-01-06'', [team_meeting, rent_moved])] \<and>
   count_id ''a'' [(''2024-01-06'', [team_meeting, rent_moved])] = 1"
proof -
  have 1: "distinct (map fst two_days)"
    by (simp add: two_days_def)
  have 2: "count_id ''a'' two_days = 1"
    by code_simp
  have 3: "''a'' \<noteq> []"
    by simp
  have 4: "patch_ok move_to_6th"
    by code_simp
  have 5: "date_upd move_to_6th = DateObj (DateOf 2024 0 6)"
    by (simp add: move_to_6th_def)
  have 6: "0 < count_in ''a'' (bucket two_days ''2024-01-05'')"
    by code_simp
  have 7: "formatDateKey (DateOf 2024 0 6) \<noteq> ''2024-01-05''"
    by code_simp
  have e: "updateTodoInCollection later two_days ''a'' move_to_6th =
      Inr [(''2024-01-06'', [team_meeting, rent_moved])]"
    by code_simp
  from updateTodoInCollection_moves [OF 1 2 3 4 5 6 7, of later]
  obtain c' where "updateTodoInCollection later two_days ''a'' move_to_6th = Inr c'"
    and "count_id ''a'' c' = 1"
    by blast
  with e show ?thesis
    by simp
qed

text \<open>
  Claim C2, as the spec states it for every collection, fails: inserting a valid item of
  id \<open>a\<close> for 2024-01-06 into a collection that has the id under 2024-01-05 succeeds, and
  in the collection that results an update of \<open>a\<close> to 2024-01-07 moves the copy of the
  first bucket only; afterwards the id is held twice, under 2024-01-06 and 2024-01-07.
\<close>

theorem updateTodoInCollection_second_copy:
  "addTodoToCollection rent_day (JObj rent_again) = Inr rent_twice \<and>
   updateTodoInCollection later rent_twice ''a'' move_to_7th =
     Inr [(''2024-01-06'', [rent_again]), (''2024-01-07'', [rent_on_7th])] \<and>
   has_id ''a'' rent_again \<and> has_id ''a'' rent_on_7th \<and>
   count_id ''a'' [(''2024-01-06'', [rent_again]), (''2024-01-07'', [rent_on_7th])] = 2"
  by code_simp

section \<open>Properties of the facade\<close>

subsection \<open>Failed writes\<close>

lemma setValue_written:
  "setValue setItem e st v =
     (case setItem (localStorage st) ''todos'' v of Inl m \<Rightarrow> False | Inr s' \<Rightarrow> True,
      written setItem e st v)"
  by (simp add: setValue_def written_def handleStorageOperation_def failure_status_def
      success_status_def split: sum.splits)

lemma addTodo_outcome:
  "(\<exists>op err. addTodo setItem e st title description date = (Inl (Failed op err), st)) \<or>
   (\<exists>r v. addTodo setItem e st title description date = (Inr r, written setItem e st v))"
  by (auto simp: addTodo_def setValue_written split: sum.splits)

lemma updateTodoById_outcome:
  "(\<exists>op err. updateTodoById setItem e st todoId upd = (Inl (Failed op err), st)) \<or>
   (\<exists>r v. updateTodoById setItem e st todoId upd = (Inr r, written setItem e st v))"
  by (auto simp: updateTodoById_def setValue_written split: sum.splits)

lemma deleteTodo_outcome:
  "(\<exists>op err. deleteTodo setItem e st todoId = (Inl (Failed op err), st)) \<or>
   (\<exists>r v. deleteTodo setItem e st todoId = (Inr r, written setItem e st v))"
  by (auto simp: deleteTodo_def setValue_written split: sum.splits)

lemma toggleTodoCompleteById_outcome:
  "(\<exists>op err. toggleTodoCompleteById setItem e st todoId = (Inl (Failed op err), st)) \<or>
   (\<exists>r v. toggleTodoCompleteById setItem e st todoId = (Inr r, written setItem e st v))"
  by (auto simp: toggleTodoCompleteById_def setValue_written split: sum.splits option.splits)

lemma clearAllTodos_outcome:
  "\<exists>r v. clearAllTodos setItem e st = (Inr r, written setItem e st v)"
  by (auto simp: clearAllTodos_def setValue_written)

lemma clearTodosForDate_outcome:
  "(\<exists>op err. clearTodosForDate setItem e st date = (Inl (Failed op err), st)) \<or>
   (\<exists>r v. clearTodosForDate setItem e st date = (Inr r, written setItem e st v))"
  by (auto simp: clearTodosForDate_def setValue_written split: arg.splits jsval.splits)

lemma bulkUpdateTodos_outcome:
  "(\<exists>op err. bulkUpdateTodos setItem e st todoIds upd = (Inl (Failed op err), st)) \<or>
   (\<exists>r v. bulkUpdateTodos setItem e st todoIds upd = (Inr r, written setItem e st v))"
  by (auto simp: bulkUpdateTodos_def setValue_written split: sum.splits prod.splits)

lemma bulkDeleteTodos_outcome:
  "(\<exists>op err. bulkDeleteTodos setItem e st todoIds = (Inl (Failed op err), st)) \<or>
   (\<exists>r v. bulkDeleteTodos setItem e st todoIds = (Inr r, written setItem e st v))"
  by (auto simp: bulkDeleteTodos_def setValue_written split: sum.splits)

lemma perform_outcome:
  "(\<exists>op err. perform setItem e st call = (Inl (Failed op err), st)) \<or>
   (\<exists>r v. perform setItem e st call = (Inr r, written setItem e st v))"
proof (cases call)
  case (AddTodo title description date)
  with addTodo_outcome [of setItem e st title description date] show ?thesis by auto
next
  case (UpdateTodo todoId upd)
  with updateTodoById_outcome [of setItem e st todoId upd] show ?thesis by auto
next
  case (DeleteTodo todoId)
  with deleteTodo_outcome [of setItem e st todoId] show ?thesis by auto
next
  case (ToggleTodoComplete todoId)
  with toggleTodoCompleteById_outcome [of setItem e st todoId] show ?thesis by auto
next
  case ClearAllTodos
  with clearAllTodos_outcome [of setItem e st] show ?thesis by auto
next
  case (ClearTodosForDate date)
  with clearTodosForDate_outcome [of setItem e st date] show ?thesis by auto
next
  case (BulkUpdateTodos todoIds upd)
  with bulkUpdateTodos_outcome [of setItem e st todoIds upd] show ?thesis by auto
next
  case (BulkDeleteTodos todoIds)
  with bulkDeleteTodos_outcome [of setItem e st todoIds] show ?thesis by auto
qed

text \<open>
  For every mutating call, the visible collection changes only to a value whose write
  succeeded; with a store that refuses every write the visible collection and the store
  stay as they were, a call that raises has left the whole state untouched, and a call
  that reached the write has the failure in the status of the hook.
\<close>

lemma perform_visible:
  "(storedValue (snd (perform setItem e st call)) \<noteq> storedValue st \<longrightarrow>
      (\<exists>s'. setItem (localStorage st) ''todos'' (storedValue (snd (perform setItem e st call))) = Inr s' \<and>
            localStorage (snd (perform setItem e st call)) = s')) \<and>
   ((\<forall>v. isl (setItem (localStorage st) ''todos'' v)) \<longrightarrow>
      storedValue (snd (perform setItem e st call)) = storedValue st \<and>
      localStorage (snd (perform setItem e st call)) = localStorage st \<and>
      (case fst (perform setItem e st call) of
         Inl err \<Rightarrow> snd (perform setItem e st call) = st
       | Inr r \<Rightarrow> \<exists>message. status (snd (perform setItem e st call)) = failure_status message))"
proof -
  have w1: "storedValue (written setItem e st v) \<noteq> storedValue st \<longrightarrow>
      (\<exists>s'. setItem (localStorage st) ''todos'' (storedValue (written setItem e st v)) = Inr s' \<and>
            localStorage (written setItem e st v) = s')" for v
    by (cases "setItem (localStorage st) ''todos'' v") (simp_all add: written_def)
  have w2: "(\<forall>v. isl (setItem (localStorage st) ''todos'' v)) \<longrightarrow>
      storedValue (written setItem e st v) = storedValue st \<and>
      localStorage (written setItem e st v) = localStorage st \<and>
      (\<exists>message. status (written setItem e st v) = failure_status message)" for v
  proof
    assume "\<forall>v. isl (setItem (localStorage st) ''todos'' v)"
    then have "isl (setItem (localStorage st) ''todos'' v)" ..
    then obtain m where "setItem (localStorage st) ''todos'' v = Inl m"
      by (cases "setItem (localStorage st) ''todos'' v") auto
    then show "storedValue (written setItem e st v) = storedValue st \<and>
      localStorage (written setItem e st v) = localStorage st \<and>
      (\<exists>message. status (written setItem e st v) = failure_status message)"
      by (auto simp: written_def)
  qed
  from perform_outcome [of setItem e st call] show ?thesis
  proof
    assume "\<exists>op err. perform setItem e st call = (Inl (Failed op err), st)"
    then show ?thesis by auto
  next
    assume "\<exists>r v. perform setItem e st call = (Inr r, written setItem e st v)"
    then obtain r v where p: "perform setItem e st call = (Inr r, written setItem e st v)"
      by blast
    from w1 [of v] w2 [of v] show ?thesis
      unfolding p by simp
  qed
qed

text \<open>
  Claim C3. When the persistence write fails, a mutating call is to raise a typed storage
  failure and leave the visible collection unchanged. At the input below the code leaves
  the visible collection unchanged but raises nothing: with a store that refuses the
  write, deleting the item of id \<open>a\<close>, for which the engine computes the empty collection,
  resolves to \<open>true\<close>, and the \<open>StorageError\<close> is found only in the status of the hook.
\<close>

theorem perform_write_refused:
  "removeTodoFromCollection (storedValue full_store) ''a'' = Inr [] \<and>
   refusing ''QuotaExceededError'' (localStorage full_store) ''todos'' [] =
     Inl ''QuotaExceededError'' \<and>
   perform (refusing ''QuotaExceededError'') monday full_store (DeleteTodo ''a'') =
     (Inr (RBool True), full_store\<lparr>status := failure_status ''QuotaExceededError''\<rparr>)"
  by code_simp

subsection \<open>Bulk update\<close>

lemma bulk_update_loop_collection:
  "map_sum id fst (bulk_update_loop now upd todoIds c acc) = apply_updates now upd todoIds c"
proof (induction todoIds arbitrary: c acc)
  case Nil
  show ?case by simp
next
  case (Cons todoId todoIds)
  show ?case
  proof (cases "updateTodoInCollection now c todoId upd")
    case (Inl err)
    then show ?thesis by simp
  next
    case (Inr c')
    with Cons.IH show ?thesis by simp
  qed
qed

lemma count_in_other: "j \<noteq> i \<Longrightarrow> count_in j (filter (\<lambda>t. \<not> has_id i t) todos) = count_in j todos"
proof -
  assume "j \<noteq> i"
  then have "(\<not> has_id i t \<and> has_id j t) = has_id j t" for t
    by (auto simp: has_id_def)
  then show ?thesis
    by (simp add: count_in_def)
qed

lemma count_id_remove_other:
  assumes "distinct (map fst c)" and "bucket c k = todos" and "j \<noteq> i"
  shows "count_id j (remove_from c k todos i) = count_id j c"
proof (cases "filter (\<lambda>t. \<not> has_id i t) todos = []")
  case True
  then have "count_in j (filter (\<lambda>t. \<not> has_id i t) todos) = 0"
    by (simp add: count_in_def)
  with count_in_other [OF assms(3), of todos] have "count_in j todos = 0"
    by simp
  with count_id_delete [OF assms(1), of j k] assms(2) True show ?thesis
    by (simp add: remove_from_def)
next
  case False
  with count_id_update [OF assms(1), of j k "filter (\<lambda>t. \<not> has_id i t) todos"] assms(2)
    count_in_other [OF assms(3), of todos]
  show ?thesis
    by (simp add: remove_from_def)
qed

lemma updateTodoInCollection_distinct:
  assumes "distinct (map fst c)" and "updateTodoInCollection now c todoId upd = Inr c'"
  shows "distinct (map fst c')"
proof -
  from updateTodoInCollection_Inr [OF assms(2)] obtain dateKey todos i updated where
    "c' = AList.update (to_key (get_prop updated ''dateKey''))
            (bucket (remove_from c dateKey todos todoId) (to_key (get_prop updated ''dateKey'')) @ [updated])
            (remove_from c dateKey todos todoId)"
    by blast
  with assms(1) show ?thesis
    by (simp add: distinct_update distinct_remove_from)
qed

lemma updateTodoInCollection_present:
  assumes "distinct (map fst c)" and "updateTodoInCollection now c todoId upd = Inr c'"
  shows "present j c' \<longleftrightarrow> present j c"
proof -
  from updateTodoInCollection_Inr [OF assms(2)] obtain dateKey todos i updated where
    f: "find_todo todoId c = Some (dateKey, todos, i)"
    and u: "updateTodo now (JObj (todos ! nat i)) upd = Inr updated"
    and c': "c' = AList.update (to_key (get_prop updated ''dateKey''))
            (bucket (remove_from c dateKey todos todoId) (to_key (get_prop updated ''dateKey'')) @ [updated])
            (remove_from c dateKey todos todoId)"
    by blast
  let ?k = "to_key (get_prop updated ''dateKey'')"
  let ?c1 = "remove_from c dateKey todos todoId"
  from find_todo_bucket [OF assms(1) f] have b: "bucket c dateKey = todos"
    and h: "has_id todoId (todos ! nat i)"
    by simp_all
  have hu: "has_id todoId updated"
    using updateTodo_id [OF u] h by (simp add: has_id_def)
  have d1: "distinct (map fst ?c1)"
    by (rule distinct_remove_from [OF assms(1)])
  show ?thesis
  proof (cases "j = todoId")
    case True
    have "present todoId c"
      using find_todo_None [of todoId c] f by simp
    moreover have "0 < count_in todoId (bucket c' ?k)"
      using hu by (simp add: c' bucket_update count_in_def)
    then have "0 < count_id todoId c'"
      using count_in_bucket_le [of todoId c' ?k] by linarith
    ultimately show ?thesis
      using True by (simp add: present_count)
  next
    case False
    have "count_in j [updated] = 0"
      using hu False by (auto simp: count_in_def has_id_def)
    then have "count_in j (bucket ?c1 ?k @ [updated]) = count_in j (bucket ?c1 ?k)"
      by (simp add: count_in_def)
    with count_id_update [OF d1, of j ?k "bucket ?c1 ?k @ [updated]"]
    have "count_id j c' = count_id j ?c1"
      by (simp add: c')
    with count_id_remove_other [OF assms(1) b False] show ?thesis
      by (simp add: present_count)
  qed
qed

lemma updateTodoInCollection_absent:
  "\<not> present todoId c \<Longrightarrow> updateTodoInCollection now c todoId upd = Inl (NotFound todoId)"
  using find_todo_None [of todoId c] by (simp add: updateTodoInCollection_def)

lemma updateTodoInCollection_succeeds:
  assumes "present todoId c" and "todoId \<noteq> []" and "patch_ok upd"
  shows "\<exists>c'. updateTodoInCollection now c todoId upd = Inr c'"
proof -
  from assms(1) obtain found where "find_todo todoId c = Some found"
    using find_todo_None [of todoId c] by (cases "find_todo todoId c") auto
  then obtain dateKey todos i where f: "find_todo todoId c = Some (dateKey, todos, i)"
    by (cases found) auto
  from find_todo_Some [OF f] findIndex_nth [of "has_id todoId" todos]
  have "has_id todoId (todos ! nat i)"
    by simp
  from has_id_truthy [OF this assms(2)] assms(3) obtain updated where
    "updateTodo now (JObj (todos ! nat i)) upd = Inr updated"
    using updateTodo_total by blast
  from updateTodoInCollection_found [OF f this] show ?thesis
    by blast
qed

lemma apply_updates_absent:
  "distinct (map fst c) \<Longrightarrow> \<exists>i\<in>set todoIds. \<not> present i c \<Longrightarrow>
   \<exists>err. apply_updates now upd todoIds c = Inl err"
proof (induction todoIds arbitrary: c)
  case Nil
  then show ?case by simp
next
  case (Cons todoId todoIds)
  show ?case
  proof (cases "updateTodoInCollection now c todoId upd")
    case (Inl err)
    then show ?thesis by simp
  next
    case (Inr c')
    with updateTodoInCollection_absent [of todoId c now upd] have "present todoId c"
      by auto
    with Cons.prems(2) have "\<exists>i\<in>set todoIds. \<not> present i c"
      by auto
    then have "\<exists>i\<in>set todoIds. \<not> present i c'"
      using updateTodoInCollection_present [OF Cons.prems(1) Inr] by simp
    from Cons.IH [OF updateTodoInCollection_distinct [OF Cons.prems(1) Inr] this] Inr
    show ?thesis by simp
  qed
qed

lemma apply_updates_first_missing:
  "distinct (map fst c) \<Longrightarrow> patch_ok upd \<Longrightarrow> [] \<notin> set todoIds \<Longrightarrow>
   List.find (\<lambda>i. \<not> present i c) todoIds = Some m \<Longrightarrow>
   apply_updates now upd todoIds c = Inl (NotFound m)"
proof (induction todoIds arbitrary: c)
  case Nil
  then show ?case by simp
next
  case (Cons todoId todoIds)
  show ?case
  proof (cases "present todoId c")
    case False
    with Cons.prems(4) have "m = todoId" by simp
    with updateTodoInCollection_absent [OF False, of now upd] show ?thesis by simp
  next
    case True
    from Cons.prems(3) have ne: "todoId \<noteq> []" by auto
    from updateTodoInCollection_succeeds [OF True ne Cons.prems(2), of now] obtain c' where
      u: "updateTodoInCollection now c todoId upd = Inr c'"
      by blast
    have same: "(\<lambda>i. \<not> present i c') = (\<lambda>i. \<not> present i c)"
      using updateTodoInCollection_present [OF Cons.prems(1) u] by simp
    from Cons.prems(4) True have "List.find (\<lambda>i. \<not> present i c') todoIds = Some m"
      by (simp add: same)
    from Cons.IH [OF updateTodoInCollection_distinct [OF Cons.prems(1) u] Cons.prems(2) _ this]
      Cons.prems(3) u
    show ?thesis by simp
  qed
qed

lemma apply_updates_succeeds:
  "distinct (map fst c) \<Longrightarrow> patch_ok upd \<Longrightarrow> [] \<notin> set todoIds \<Longrightarrow>
   \<forall>i\<in>set todoIds. present i c \<Longrightarrow> \<exists>c'. apply_updates now upd todoIds c = Inr c'"
proof (induction todoIds arbitrary: c)
  case Nil
  then show ?case by simp
next
  case (Cons todoId todoIds)
  from Cons.prems(3) have ne: "todoId \<noteq> []" by auto
  from Cons.prems(4) have p: "present todoId c" by simp
  from updateTodoInCollection_succeeds [OF p ne Cons.prems(2), of now] obtain c' where
    u: "updateTodoInCollection now c todoId upd = Inr c'"
    by blast
  have "\<forall>i\<in>set todoIds. present i c'"
    using updateTodoInCollection_present [OF Cons.prems(1) u] Cons.prems(4) by simp
  from Cons.IH [OF updateTodoInCollection_distinct [OF Cons.prems(1) u] Cons.prems(2) _ this]
    Cons.prems(3) u
  show ?case by simp
qed

lemma bulkUpdateTodos_apply_updates:
  "(case apply_updates (nowISO e) upd todoIds (storedValue st) of
      Inl err \<Rightarrow>
        bulkUpdateTodos setItem e st todoIds upd = (Inl (Failed ''bulk update todos'' err), st)
    | Inr c' \<Rightarrow>
        \<not> isl (fst (bulkUpdateTodos setItem e st todoIds upd)) \<and>
        snd (bulkUpdateTodos setItem e st todoIds upd) = written setItem e st c')"
proof (cases "bulk_update_loop (nowISO e) upd todoIds (storedValue st) []")
  case (Inl err)
  with bulk_update_loop_collection [of "nowISO e" upd todoIds "storedValue st" "[]"]
  have "apply_updates (nowISO e) upd todoIds (storedValue st) = Inl err"
    by simp
  with Inl show ?thesis
    by (simp add: bulkUpdateTodos_def)
next
  case (Inr res)
  obtain c' l where res: "res = (c', l)" by (cases res)
  with Inr bulk_update_loop_collection [of "nowISO e" upd todoIds "storedValue st" "[]"]
  have "apply_updates (nowISO e) upd todoIds (storedValue st) = Inr c'"
    by simp
  with Inr res show ?thesis
    by (simp add: bulkUpdateTodos_def setValue_written)
qed

text \<open>
  Claim C4, as the code has it. \<open>bulkUpdateTodos\<close> is all-or-nothing and sequential: it is
  \<open>updateTodoInCollection\<close> applied to each id in turn; when one of these fails, the call
  fails with that failure and the state of the facade is left as it was, and otherwise
  the final collection goes to the write. Whenever an id of the list is absent from the
  collection the call fails; the failure is \<open>NotFound\<close> of the first absent id when the
  patch is one that \<open>updateTodo\<close> accepts and no id is the empty string. When all ids
  are present, under the same conditions every update succeeds.
\<close>

theorem bulkUpdateTodos_atomic:
  assumes "distinct (map fst (storedValue st))"
  shows "(case apply_updates (nowISO e) upd todoIds (storedValue st) of
      Inl err \<Rightarrow>
        bulkUpdateTodos setItem e st todoIds upd = (Inl (Failed ''bulk update todos'' err), st)
    | Inr c' \<Rightarrow>
        \<not> isl (fst (bulkUpdateTodos setItem e st todoIds upd)) \<and>
        snd (bulkUpdateTodos setItem e st todoIds upd) = written setItem e st c') \<and>
   ((\<exists>i\<in>set todoIds. \<not> present i (storedValue st)) \<longrightarrow>
      (\<exists>err. bulkUpdateTodos setItem e st todoIds upd = (Inl (Failed ''bulk update todos'' err), st) \<and>
         (patch_ok upd \<and> [] \<notin> set todoIds \<longrightarrow>
            (\<exists>m. List.find (\<lambda>i. \<not> present i (storedValue st)) todoIds = Some m \<and>
                 err = NotFound m)))) \<and>
   ((\<forall>i\<in>set todoIds. present i (storedValue st)) \<and> patch_ok upd \<and> [] \<notin> set todoIds \<longrightarrow>
      (\<exists>c'. apply_updates (nowISO e) upd todoIds (storedValue st) = Inr c'))"
proof (intro conjI impI)
  show "case apply_updates (nowISO e) upd todoIds (storedValue st) of
      Inl err \<Rightarrow>
        bulkUpdateTodos setItem e st todoIds upd = (Inl (Failed ''bulk update todos'' err), st)
    | Inr c' \<Rightarrow>
        \<not> isl (fst (bulkUpdateTodos setItem e st todoIds upd)) \<and>
        snd (bulkUpdateTodos setItem e st todoIds upd) = written setItem e st c'"
    by (rule bulkUpdateTodos_apply_updates)
next
  assume missing: "\<exists>i\<in>set todoIds. \<not> present i (storedValue st)"
  from apply_updates_absent [OF assms missing, of "nowISO e" upd] obtain err where
    err: "apply_updates (nowISO e) upd todoIds (storedValue st) = Inl err"
    by blast
  with bulkUpdateTodos_apply_updates [where e = e and upd = upd and todoIds = todoIds and st = st and setItem = setItem]
  have r: "bulkUpdateTodos setItem e st todoIds upd = (Inl (Failed ''bulk update todos'' err), st)"
    by simp
  have first: "patch_ok upd \<and> [] \<notin> set todoIds \<longrightarrow>
      (\<exists>m. List.find (\<lambda>i. \<not> present i (storedValue st)) todoIds = Some m \<and> err = NotFound m)"
  proof
    assume ok: "patch_ok upd \<and> [] \<notin> set todoIds"
    from missing obtain m where
      m: "List.find (\<lambda>i. \<not> present i (storedValue st)) todoIds = Some m"
      by (cases "List.find (\<lambda>i. \<not> present i (storedValue st)) todoIds")
        (auto simp: find_None_iff)
    from ok have 1: "patch_ok upd" and 2: "[] \<notin> set todoIds"
      by simp_all
    from apply_updates_first_missing [OF assms 1 2 m, of "nowISO e"] err
    have "err = NotFound m"
      by simp
    with m show "\<exists>m. List.find (\<lambda>i. \<not> present i (storedValue st)) todoIds = Some m \<and> err = NotFound m"
      by blast
  qed
  from r first show "\<exists>err. bulkUpdateTodos setItem e st todoIds upd =
        (Inl (Failed ''bulk update todos'' err), st) \<and>
      (patch_ok upd \<and> [] \<notin> set todoIds \<longrightarrow>
        (\<exists>m. List.find (\<lambda>i. \<not> present i (storedValue st)) todoIds = Some m \<and> err = NotFound m))"
    by blast
next
  assume a: "(\<forall>i\<in>set todoIds. present i (storedValue st)) \<and> patch_ok upd \<and> [] \<notin> set todoIds"
  then have 1: "patch_ok upd" and 2: "[] \<notin> set todoIds"
    and 3: "\<forall>i\<in>set todoIds. present i (storedValue st)"
    by simp_all
  from apply_updates_succeeds [OF assms 1 2 3]
  show "\<exists>c'. apply_updates (nowISO e) upd todoIds (storedValue st) = Inr c'" .
qed

theorem bulkUpdateTodos_atomic_witness:
  "bulkUpdateTodos keeping monday shared_store [''a'', ''missing'', ''b''] mark_done =
     (Inl (Failed ''bulk update todos'' (NotFound ''missing'')), shared_store)"
proof -
  have 1: "distinct (map fst (storedValue shared_store))"
    by (simp add: shared_store_def rent_and_ana_def)
  have 2: "\<exists>i\<in>set [''a'', ''missing'', ''b'']. \<not> present i (storedValue shared_store)"
    by code_simp
  have 3: "patch_ok mark_done \<and> [] \<notin> set [''a'', ''missing'', ''b'']"
    by code_simp
  have 4: "List.find (\<lambda>i. \<not> present i (storedValue shared_store)) [''a'', ''missing'', ''b''] =
      Some ''missing''"
    by code_simp
  from bulkUpdateTodos_atomic [OF 1, where e = monday and upd = mark_done
      and todoIds = "[''a'', ''missing'', ''b'']" and setItem = keeping] 2 3 4
  show ?thesis
    by auto
qed

text \<open>
  Claim C4, as the spec states it, fails: with the id \<open>a\<close> present and the id
  \<open>missing\<close> absent, a patch with a blank title makes the call fail with the title
  failure of the first id, not with \<open>NotFound\<close>.
\<close>

theorem bulkUpdateTodos_patch_failure:
  "present ''a'' (storedValue shared_store) \<and> \<not> present ''missing'' (storedValue shared_store) \<and>
   bulkUpdateTodos keeping monday shared_store [''a'', ''missing''] blank_title =
     (Inl (Failed ''bulk update todos'' InvalidTitle), shared_store)"
  by code_simp

end
